theory Spec2Isabelle
  imports Complex_Main "HOL-Library.AList"
begin

section \<open>Progression model (server/src/index.js, lines 196-225)\<close>

text \<open>
  JavaScript numbers that occur in the progression model are integers, except for the
  value \<open>Infinity\<close> that \<open>getRequiredXPForLevel\<close> returns at the level cap.
\<close>

datatype number = Finite int | Infinity

fun num_add :: "number \<Rightarrow> number \<Rightarrow> number" where
  "num_add (Finite a) (Finite b) = Finite (a + b)"
| "num_add _ _ = Infinity"

fun num_less :: "number \<Rightarrow> number \<Rightarrow> bool" where
  "num_less (Finite a) (Finite b) = (a < b)"
| "num_less (Finite a) Infinity = True"
| "num_less Infinity _ = False"

definition getRequiredXPForLevel :: "int \<Rightarrow> number" where
  "getRequiredXPForLevel lvl = (if lvl \<ge> 10 then Infinity else Finite ((lvl * 3) + 2))"

text \<open>
  The \<open>while (level < 10)\<close> loop of \<open>getLevelFromXP\<close>, with the loop variables
  \<open>level\<close> and \<open>xpRequired\<close> as arguments.
\<close>

function getLevelFromXP_loop :: "int \<Rightarrow> int \<Rightarrow> number \<Rightarrow> int" where
  "getLevelFromXP_loop n lvl xpRequired =
     (if lvl < 10 then
        (let xpRequired' = num_add xpRequired (getRequiredXPForLevel lvl)
         in if num_less (Finite n) xpRequired' then lvl
            else getLevelFromXP_loop n (lvl + 1) xpRequired')
      else 10)"
  by pat_completeness auto
termination
  by (relation "measure (\<lambda>(n, lvl, r). nat (10 - lvl))") auto

declare getLevelFromXP_loop.simps [simp del]

definition getLevelFromXP :: "int \<Rightarrow> int" where
  "getLevelFromXP n = getLevelFromXP_loop n 1 (Finite 0)"

definition getSizeForLevel :: "int \<Rightarrow> real" where
  "getSizeForLevel lvl = 0.7 + ((real_of_int lvl - 1) * 0.05)"

text \<open>
  The specification's reading of the progression functions, kept apart from the code:
  the requirement formula \<open>3 * level + 2\<close>, its running total over the levels \<open>1..L\<close>,
  and \<open>levelFromXp\<close> as the specification words it (the smallest \<open>L\<close> whose running total
  over \<open>1..L-1\<close> exceeds the experience, capped at 10).
\<close>

definition xpRequiredForLevel_spec :: "int \<Rightarrow> int" where
  "xpRequiredForLevel_spec L = 3 * L + 2"

definition cumulativeXP :: "int \<Rightarrow> int" where
  "cumulativeXP L = sum_list (map xpRequiredForLevel_spec [1..L])"

definition levelFromXp_spec :: "int \<Rightarrow> int" where
  "levelFromXp_spec n =
     (case find (\<lambda>L. n < cumulativeXP (L - 1)) [1..10] of Some L \<Rightarrow> L | None \<Rightarrow> 10)"


section \<open>World state (server/src/index.js, lines 17-30 and 227-231)\<close>

text \<open>
  Socket ids, player names, pad ids and fly ids are JavaScript strings. Coordinates and
  sizes are JavaScript numbers; they are modelled as reals. The only arithmetic on sizes
  is \<open>getSizeForLevel\<close> on the levels 1..10. Its floating-point results can differ from
  the real ones in the last digit (level 3 gives 0.7999999999999999, not 0.8), but they are
  ordered like the real ones, and sizes are only compared with \<open><\<close>. Coordinates are
  only copied and compared for equality.
  Health, experience, level and timestamps are integers.
\<close>

type_synonym sockid = string
type_synonym addr = nat

record lilyPad =
  pad_id :: string
  pad_x :: real
  pad_y :: real
  isSpawnPoint :: bool

record fly =
  fly_id :: string
  fly_x :: real
  fly_y :: real
  fly_angle :: real
  angularVelocity :: real
  fly_speed :: real
  nextDirectionChange :: real

record player =
  p_id :: sockid
  p_name :: string
  p_x :: real
  p_y :: real
  p_size :: real
  health :: int
  maxHealth :: int
  isSwimming :: bool
  lastPushTime :: int
  p_level :: int
  p_xp :: int

text \<open>
  Outbound traffic: \<open>io.emit\<close> reaches every client, \<open>socket.emit\<close> only the caller,
  \<open>socket.broadcast.emit\<close> every client but the caller. \<open>ForceDisconnect\<close> stands for
  the call \<open>socket.disconnect()\<close>, \<open>NameAvailable\<close> for the reply callback of
  \<open>checkName\<close>. The \<open>disconnect\<close> notification that the transport delivers to a socket
  closed in this way is a \<open>Disconnect\<close> event of its own. Messages to the console are
  left out.
\<close>

datatype dest = Everyone | Only sockid | Others sockid

datatype msg =
    NameAvailable bool
  | GameState "player list" "fly list" "lilyPad list"
  | PlayerJoined player
  | PlayerHealthUpdate sockid int int
  | PlayerMoved sockid real real int int
  | PlayerPushed sockid sockid real real
  | PlayerCanMove sockid
  | PlayerDied sockid
  | PlayerDamaged sockid int int int
  | FlyCaught string sockid real int int int int bool
  | NewFly fly
  | PlayerDisconnected sockid
  | ForceDisconnect

datatype error = TypeError

text \<open>
  Player objects are mutated in place and are referenced both from the registry
  \<open>gameState.players\<close> and from pending \<open>setTimeout\<close> callbacks, so they live in an
  explicit store: \<open>heap\<close> maps an address to the object, \<open>nextAddr\<close> is the next unused
  address, and the registry (a JavaScript \<open>Map\<close>, insertion ordered) maps a socket id to
  an address. \<open>socketPlayerName\<close> is the property \<open>socket.playerName\<close> and
  \<open>lastAttackTime\<close> the \<open>Map\<close> created inside each connection's closure; both are
  indexed by the connection's socket id. \<open>timers\<close> holds the pending swim-recovery
  callbacks as (due time, captured object, captured id).
\<close>

record state =
  players :: "(sockid \<times> addr) list"
  heap :: "addr \<Rightarrow> player"
  nextAddr :: addr
  flies :: "fly list"
  lilyPads :: "lilyPad list"
  playerNames :: "sockid \<rightharpoonup> string"
  takenUsernames :: "string set"
  socketPlayerName :: "sockid \<rightharpoonup> string"
  lastAttackTime :: "sockid \<Rightarrow> sockid \<rightharpoonup> int"
  timers :: "(int \<times> addr \<times> sockid) list"
  outbox :: "(dest \<times> msg) list"

definition emit :: "dest \<Rightarrow> msg \<Rightarrow> state \<Rightarrow> state" where
  "emit d m s = s\<lparr>outbox := outbox s @ [(d, m)]\<rparr>"

definition worldWidth :: real where "worldWidth = 2400"
definition worldHeight :: real where "worldHeight = 1800"

definition centerPad :: lilyPad where
  "centerPad = \<lparr>pad_id = ''pad-center'', pad_x = worldWidth / 2, pad_y = worldHeight / 2,
                 isSpawnPoint = True\<rparr>"

text \<open>
  \<open>generateLilyPads\<close> pushes the centre pad first and then the pads that pass its
  randomised placement tests; the argument is the list of those further pads.
\<close>

definition generateLilyPads :: "lilyPad list \<Rightarrow> lilyPad list" where
  "generateLilyPads placed = centerPad # placed"

definition blankPlayer :: player where
  "blankPlayer = \<lparr>p_id = [], p_name = [], p_x = 0, p_y = 0, p_size = 0, health = 0,
                   maxHealth = 0, isSwimming = False, lastPushTime = 0, p_level = 0, p_xp = 0\<rparr>"

definition initialState :: "lilyPad list \<Rightarrow> fly list \<Rightarrow> state" where
  "initialState placed fl =
     \<lparr>players = [], heap = (\<lambda>a. blankPlayer), nextAddr = 0, flies = fl,
      lilyPads = generateLilyPads placed, playerNames = Map.empty, takenUsernames = {},
      socketPlayerName = Map.empty, lastAttackTime = (\<lambda>c. Map.empty), timers = [],
      outbox = []\<rparr>"

section \<open>Helpers\<close>

text \<open>Array indexing: \<open>undefined\<close> (here \<open>None\<close>) outside the array.\<close>

definition nth_opt :: "'a list \<Rightarrow> int \<Rightarrow> 'a option" where
  "nth_opt xs i = (if 0 \<le> i \<and> i < int (length xs) then Some (xs ! nat i) else None)"

text \<open>\<open>Array.prototype.findIndex\<close>, with \<open>None\<close> for \<open>-1\<close>.\<close>

fun findIndex :: "('a \<Rightarrow> bool) \<Rightarrow> 'a list \<Rightarrow> nat option" where
  "findIndex P [] = None"
| "findIndex P (x # xs) =
     (if P x then Some 0 else (case findIndex P xs of None \<Rightarrow> None | Some i \<Rightarrow> Some (Suc i)))"

text \<open>\<open>splice(i, 1)\<close>.\<close>

definition splice1 :: "nat \<Rightarrow> 'a list \<Rightarrow> 'a list" where
  "splice1 i xs = take i xs @ drop (Suc i) xs"

text \<open>A string operand of \<open>||\<close> or \<open>if\<close>: missing and empty strings are falsy.\<close>

definition truthy :: "string option \<Rightarrow> string option" where
  "truthy v = (case v of None \<Rightarrow> None | Some n \<Rightarrow> (if n = [] then None else Some n))"

definition playerValues :: "state \<Rightarrow> player list" where
  "playerValues s = map (\<lambda>(i, a). heap s a) (players s)"

text \<open>The argument \<open>rnd\<close> is the value of \<open>Math.random()\<close>.\<close>

definition findUnoccupiedLilyPad :: "state \<Rightarrow> real \<Rightarrow> lilyPad option" where
  "findUnoccupiedLilyPad s rnd =
     (let unoccupiedPads =
            filter (\<lambda>pad. \<not> list_ex (\<lambda>p. p_x p = pad_x pad \<and> p_y p = pad_y pad) (playerValues s))
                   (lilyPads s)
      in if length unoccupiedPads = 0 then nth_opt (lilyPads s) 0
         else nth_opt unoccupiedPads \<lfloor>rnd * real (length unoccupiedPads)\<rfloor>)"

section \<open>Event handlers (server/src/index.js, lines 233-498)\<close>

definition checkName :: "sockid \<Rightarrow> string \<Rightarrow> state \<Rightarrow> error + state" where
  "checkName sid nm s = Inr (emit (Only sid) (NameAvailable (nm \<notin> takenUsernames s)) s)"

definition freshPlayer :: "sockid \<Rightarrow> string \<Rightarrow> lilyPad \<Rightarrow> player" where
  "freshPlayer sid nm spawnPad =
     \<lparr>p_id = sid, p_name = nm, p_x = pad_x spawnPad, p_y = pad_y spawnPad, p_size = 0.7,
      health = 50, maxHealth = 50, isSwimming = False, lastPushTime = 0, p_level = 1,
      p_xp = 0\<rparr>"

text \<open>
  \<open>gameState.players.set(socket.id, player)\<close> with a newly created object: the object
  gets the next address.
\<close>

definition registerPlayer :: "sockid \<Rightarrow> player \<Rightarrow> state \<Rightarrow> state" where
  "registerPlayer sid p s =
     s\<lparr>heap := (heap s)(nextAddr s := p), nextAddr := Suc (nextAddr s),
       players := AList.update sid (nextAddr s) (players s)\<rparr>"

definition newPlayer :: "sockid \<Rightarrow> string \<Rightarrow> real \<Rightarrow> state \<Rightarrow> error + state" where
  "newPlayer sid playerName rnd s =
     (if length playerName > 16 \<or> playerName \<in> takenUsernames s
      then Inr (emit (Only sid) ForceDisconnect s)
      else
        let s1 = s\<lparr>takenUsernames := insert playerName (takenUsernames s),
                   socketPlayerName := (socketPlayerName s)(sid \<mapsto> playerName)\<rparr>
        in case findUnoccupiedLilyPad s1 rnd of
             None \<Rightarrow> Inl TypeError
           | Some spawnPad \<Rightarrow>
               let s2 = s1\<lparr>playerNames := (playerNames s1)(sid \<mapsto> playerName)\<rparr>;
                   p = freshPlayer sid playerName spawnPad;
                   s3 = registerPlayer sid p s2;
                   s4 = emit (Only sid) (GameState (playerValues s3) (flies s3) (lilyPads s3)) s3;
                   s5 = emit (Others sid) (PlayerJoined p) s4
               in Inr (emit Everyone (PlayerHealthUpdate sid (health p) (maxHealth p)) s5))"

definition respawnName :: "state \<Rightarrow> sockid \<Rightarrow> string" where
  "respawnName s sid =
     (case truthy (map_option (\<lambda>a. p_name (heap s a)) (map_of (players s) sid)) of
        Some n \<Rightarrow> n
      | None \<Rightarrow> (case truthy (playerNames s sid) of Some n \<Rightarrow> n | None \<Rightarrow> ''Anonymous''))"

definition respawn :: "sockid \<Rightarrow> real \<Rightarrow> state \<Rightarrow> error + state" where
  "respawn sid rnd s =
     (case findUnoccupiedLilyPad s rnd of
        None \<Rightarrow> Inl TypeError
      | Some spawnPad \<Rightarrow>
          let p = freshPlayer sid (respawnName s sid) spawnPad;
              s1 = registerPlayer sid p s;
              s2 = emit Everyone (PlayerJoined p) s1
          in Inr (emit Everyone (PlayerHealthUpdate sid (health p) (maxHealth p)) s2))"

text \<open>
  One iteration of the loop over \<open>gameState.players.entries()\<close> in \<open>moveToLilyPad\<close>;
  \<open>a\<close> is the mover's object, \<open>(otherId, b)\<close> the entry visited.
\<close>

definition pushStep :: "sockid \<Rightarrow> addr \<Rightarrow> lilyPad \<Rightarrow> int \<Rightarrow> sockid \<times> addr \<Rightarrow> state \<Rightarrow> state" where
  "pushStep sid a targetPad currentTime entry s =
     (let otherId = fst entry; b = snd entry; otherPlayer = heap s b
      in if otherId \<noteq> sid \<and>
            p_x otherPlayer = pad_x targetPad \<and>
            p_y otherPlayer = pad_y targetPad \<and>
            p_size otherPlayer < p_size (heap s a) \<and>
            \<not> isSwimming otherPlayer \<and>
            currentTime - lastPushTime otherPlayer > 2000
         then emit Everyone (PlayerPushed otherId sid (p_x otherPlayer) (p_y otherPlayer))
                (s\<lparr>heap := (heap s)(b := otherPlayer\<lparr>isSwimming := True,
                                                     lastPushTime := currentTime\<rparr>),
                   timers := timers s @ [(currentTime + 1000, b, otherId)]\<rparr>)
         else s)"

definition moveToLilyPad :: "sockid \<Rightarrow> string \<Rightarrow> int \<Rightarrow> state \<Rightarrow> error + state" where
  "moveToLilyPad sid padId currentTime s =
     (case map_of (players s) sid of
        None \<Rightarrow> Inr s
      | Some a \<Rightarrow>
          if isSwimming (heap s a) then Inr s
          else (case find (\<lambda>pad. pad_id pad = padId) (lilyPads s) of
                  None \<Rightarrow> Inr s
                | Some targetPad \<Rightarrow>
                    let currentHealth = health (heap s a);
                        currentMaxHealth = maxHealth (heap s a);
                        s1 = fold (pushStep sid a targetPad currentTime) (players s) s;
                        p = (heap s1 a)\<lparr>p_x := pad_x targetPad, p_y := pad_y targetPad,
                                        health := currentHealth, maxHealth := currentMaxHealth\<rparr>;
                        s2 = s1\<lparr>heap := (heap s1)(a := p)\<rparr>;
                        s3 = emit Everyone
                               (PlayerMoved sid (p_x p) (p_y p) (health p) (maxHealth p)) s2
                    in Inr (emit Everyone (PlayerHealthUpdate sid (health p) (maxHealth p)) s3)))"

text \<open>
  The callback passed to \<open>setTimeout\<close>: \<open>k\<close> selects the pending timer, \<open>now\<close> is the
  time at which the runtime calls it, never before the timer is due.
\<close>

definition swimTimeout :: "nat \<Rightarrow> int \<Rightarrow> state \<Rightarrow> error + state" where
  "swimTimeout k now s =
     (if k < length (timers s) \<and> fst (timers s ! k) \<le> now
      then
        let b = fst (snd (timers s ! k)); otherId = snd (snd (timers s ! k));
            s1 = s\<lparr>timers := splice1 k (timers s)\<rparr>
        in if isSwimming (heap s1 b)
           then Inr (emit Everyone (PlayerCanMove otherId)
                       (s1\<lparr>heap := (heap s1)(b := (heap s1 b)\<lparr>isSwimming := False\<rparr>)\<rparr>))
           else Inr s1
      else Inr s)"

definition lastAttackOf :: "state \<Rightarrow> sockid \<Rightarrow> sockid \<Rightarrow> int" where
  "lastAttackOf s sid targetId =
     (case lastAttackTime s sid targetId of None \<Rightarrow> 0 | Some v \<Rightarrow> v)"

text \<open>
  \<open>health\<close> is always a number in this model, so the branch guarded by
  \<open>typeof target.health !== 'number'\<close> is never taken.
\<close>

definition tongueAttack :: "sockid \<Rightarrow> sockid \<Rightarrow> int \<Rightarrow> state \<Rightarrow> error + state" where
  "tongueAttack sid targetId now s =
     (case map_of (players s) sid of
        None \<Rightarrow> Inr s
      | Some attacker \<Rightarrow>
          (case map_of (players s) targetId of
             None \<Rightarrow> Inr s
           | Some t \<Rightarrow>
               if now - lastAttackOf s sid targetId < 500 then Inr s
               else
                 let s1 = s\<lparr>lastAttackTime :=
                              (lastAttackTime s)(sid := (lastAttackTime s sid)(targetId \<mapsto> now))\<rparr>;
                     target = (heap s1 t)\<lparr>health := max 0 (health (heap s1 t) - 10)\<rparr>;
                     s2 = s1\<lparr>heap := (heap s1)(t := target)\<rparr>
                 in if health target \<le> 0
                    then Inr (emit Everyone (PlayerDied targetId)
                                (s2\<lparr>players := AList.delete targetId (players s2)\<rparr>))
                    else Inr (emit Everyone
                                (PlayerDamaged targetId (health target) (maxHealth target) 10) s2)))"

text \<open>The argument \<open>newFly\<close> is the result of the call \<open>generateFly()\<close>.\<close>

definition catchFly :: "sockid \<Rightarrow> string \<Rightarrow> fly \<Rightarrow> state \<Rightarrow> error + state" where
  "catchFly sid flyId newFly s =
     (case map_of (players s) sid of
        None \<Rightarrow> Inr s
      | Some a \<Rightarrow>
          (case findIndex (\<lambda>f. fly_id f = flyId) (flies s) of
             None \<Rightarrow> Inr s
           | Some flyIndex \<Rightarrow>
               let s1 = s\<lparr>flies := splice1 flyIndex (flies s)\<rparr>;
                   p1 = (heap s1 a)\<lparr>p_xp := p_xp (heap s1 a) + 1\<rparr>;
                   newLevel = getLevelFromXP (p_xp p1);
                   didLevelUp = (newLevel > p_level p1);
                   p2 = (if didLevelUp
                         then p1\<lparr>p_level := newLevel, p_size := getSizeForLevel newLevel,
                                 maxHealth := 50 + ((newLevel - 1) * 10),
                                 health := 50 + ((newLevel - 1) * 10)\<rparr>
                         else p1);
                   s2 = s1\<lparr>heap := (heap s1)(a := p2)\<rparr>;
                   s3 = emit Everyone
                          (FlyCaught flyId sid (p_size p2) (health p2) (maxHealth p2)
                             (p_level p2) (p_xp p2) didLevelUp) s2;
                   s4 = s3\<lparr>flies := flies s3 @ [newFly]\<rparr>
               in Inr (emit Everyone (NewFly newFly) s4)))"

definition disconnect :: "sockid \<Rightarrow> state \<Rightarrow> error + state" where
  "disconnect sid s =
     (if map_of (players s) sid \<noteq> None
      then
        let s1 = s\<lparr>players := AList.delete sid (players s),
                   playerNames := (playerNames s)(sid := None)\<rparr>;
            s2 = (case truthy (socketPlayerName s1 sid) of
                    None \<Rightarrow> s1
                  | Some n \<Rightarrow> s1\<lparr>takenUsernames := takenUsernames s1 - {n}\<rparr>)
        in Inr (emit Everyone (PlayerDisconnected sid) s2)
      else Inr s)"

section \<open>The server as a transition system\<close>

text \<open>
  Every event carries what the handler reads from its environment: the value of
  \<open>Math.random()\<close>, the value of \<open>Date.now()\<close>, the generated fly.
  Handlers run to completion, one after the other. A handler that throws ends the run
  (\<open>Inl\<close>). The periodic fly update (lines 501-555) rewrites coordinates and angles of
  the flies only; it is not part of the transition system.
\<close>

datatype event =
    CheckName sockid string
  | NewPlayer sockid string real
  | Respawn sockid real
  | MoveToLilyPad sockid string int
  | TongueAttack sockid sockid int
  | CatchFly sockid string fly
  | Disconnect sockid
  | SwimTimeout nat int

fun step :: "event \<Rightarrow> state \<Rightarrow> error + state" where
  "step (CheckName sid nm) s = checkName sid nm s"
| "step (NewPlayer sid nm rnd) s = newPlayer sid nm rnd s"
| "step (Respawn sid rnd) s = respawn sid rnd s"
| "step (MoveToLilyPad sid padId now) s = moveToLilyPad sid padId now s"
| "step (TongueAttack sid targetId now) s = tongueAttack sid targetId now s"
| "step (CatchFly sid flyId newFly) s = catchFly sid flyId newFly s"
| "step (Disconnect sid) s = disconnect sid s"
| "step (SwimTimeout k now) s = swimTimeout k now s"

fun run :: "event list \<Rightarrow> state \<Rightarrow> error + state" where
  "run [] s = Inr s"
| "run (e # es) s = (case step e s of Inl err \<Rightarrow> Inl err | Inr s' \<Rightarrow> run es s')"

text \<open>The server starts with the generated pads and ten generated flies.\<close>

inductive reachable :: "state \<Rightarrow> bool" where
  reach_init: "length fl = 10 \<Longrightarrow> reachable (initialState placed fl)"
| reach_step: "reachable s \<Longrightarrow> step e s = Inr s' \<Longrightarrow> reachable s'"


section \<open>Invariant of the reachable states\<close>

text \<open>
  A registered player is alive: the health is positive, at most the maximal health, and
  a multiple of the damage of one hit. Distinct registry entries hold distinct objects,
  all of them allocated, and the pad list is never empty.
\<close>

definition healthOK :: "player \<Rightarrow> bool" where
  "healthOK p \<longleftrightarrow> 0 < health p \<and> health p \<le> maxHealth p \<and> health p mod 10 = 0"

definition invariant :: "state \<Rightarrow> bool" where
  "invariant s \<longleftrightarrow>
     distinct (map snd (players s)) \<and>
     (\<forall>e \<in> set (players s). snd e < nextAddr s \<and> healthOK (heap s (snd e))) \<and>
     lilyPads s \<noteq> []"

text \<open>
  Swimming objects and pending recovery timers correspond one to one: a timer refers to an
  allocated, swimming object and is due 1000 ms after that object's last push, no object
  has two timers, and every swimming object has a timer.
\<close>

definition timersOK :: "state \<Rightarrow> bool" where
  "timersOK s \<longleftrightarrow>
     distinct (map (\<lambda>tm. fst (snd tm)) (timers s)) \<and>
     (\<forall>tm \<in> set (timers s). fst (snd tm) < nextAddr s \<and> isSwimming (heap s (fst (snd tm))) \<and>
                            fst tm = lastPushTime (heap s (fst (snd tm))) + 1000) \<and>
     (\<forall>c. isSwimming (heap s c) \<longrightarrow> c \<in> (\<lambda>tm. fst (snd tm)) ` set (timers s))"

section \<open>Names for parts of the handlers\<close>

text \<open>The effect of a successful \<open>catchFly\<close> on the catcher's object.\<close>

definition caught :: "player \<Rightarrow> player" where
  "caught p =
     (if getLevelFromXP (p_xp p + 1) > p_level p
      then p\<lparr>p_xp := p_xp p + 1, p_level := getLevelFromXP (p_xp p + 1),
             p_size := getSizeForLevel (getLevelFromXP (p_xp p + 1)),
             maxHealth := 50 + ((getLevelFromXP (p_xp p + 1) - 1) * 10),
             health := 50 + ((getLevelFromXP (p_xp p + 1) - 1) * 10)\<rparr>
      else p\<lparr>p_xp := p_xp p + 1\<rparr>)"

text \<open>The filter predicate of \<open>findUnoccupiedLilyPad\<close>: no registered player stands on the pad.\<close>

definition unoccupied :: "state \<Rightarrow> lilyPad \<Rightarrow> bool" where
  "unoccupied s pad \<longleftrightarrow>
     \<not> list_ex (\<lambda>p. p_x p = pad_x pad \<and> p_y p = pad_y pad) (playerValues s)"

text \<open>The condition under which the loop of \<open>moveToLilyPad\<close> pushes the entry it visits.\<close>

definition pushable :: "sockid \<Rightarrow> real \<Rightarrow> lilyPad \<Rightarrow> int \<Rightarrow> sockid \<Rightarrow> player \<Rightarrow> bool" where
  "pushable sid moverSize targetPad currentTime otherId otherPlayer \<longleftrightarrow>
     otherId \<noteq> sid \<and> p_x otherPlayer = pad_x targetPad \<and> p_y otherPlayer = pad_y targetPad \<and>
     p_size otherPlayer < moverSize \<and> \<not> isSwimming otherPlayer \<and>
     currentTime - lastPushTime otherPlayer > 2000"

section \<open>A concrete world for worked examples\<close>

text \<open>
  The centre pad and two further pads, ten flies \<open>f0\<close> .. \<open>f9\<close>, and no player yet.
\<close>

definition demoFly :: "char \<Rightarrow> fly" where
  "demoFly c = \<lparr>fly_id = [CHR ''f'', c], fly_x = 100, fly_y = 100, fly_angle = 0,
                 angularVelocity = 0, fly_speed = 3, nextDirectionChange = 0\<rparr>"

definition demoFlies :: "fly list" where
  "demoFlies = map demoFly ''0123456789''"

definition demoPads :: "lilyPad list" where
  "demoPads = [\<lparr>pad_id = ''pad-0-1'', pad_x = 400, pad_y = 200, isSpawnPoint = False\<rparr>,
               \<lparr>pad_id = ''pad-0-2'', pad_x = 700, pad_y = 200, isSpawnPoint = False\<rparr>]"

definition demoInit :: state where
  "demoInit = initialState demoPads demoFlies"

text \<open>
  Three players \<open>A\<close>, \<open>B\<close>, \<open>T\<close> join on the connections \<open>s1\<close>, \<open>s2\<close>, \<open>s3\<close>; they
  become the objects 0, 1, 2 and stand on the centre pad, \<open>pad-0-1\<close> and \<open>pad-0-2\<close>.
\<close>

definition arena :: state where
  "arena = projr (run [NewPlayer ''s1'' ''A'' 0, NewPlayer ''s2'' ''B'' 0, NewPlayer ''s3'' ''T'' 0]
                  demoInit)"

text \<open>\<open>A\<close> hits \<open>T\<close> once.\<close>

definition arena_hit :: state where
  "arena_hit = projr (step (TongueAttack ''s1'' ''s3'' 1700000000000) arena)"

text \<open>\<open>B\<close> hits \<open>A\<close> five times, 500 ms apart: \<open>A\<close> dies.\<close>

definition deadA :: state where
  "deadA = projr (run [TongueAttack ''s2'' ''s1'' 1700000000000,
                       TongueAttack ''s2'' ''s1'' 1700000000500,
                       TongueAttack ''s2'' ''s1'' 1700000001000,
                       TongueAttack ''s2'' ''s1'' 1700000001500,
                       TongueAttack ''s2'' ''s1'' 1700000002000] arena)"

text \<open>\<open>A\<close> catches five flies and reaches level 2, hence a size above that of \<open>B\<close>.\<close>

definition bigA :: state where
  "bigA = projr (run [CatchFly ''s1'' ''f0'' (demoFly CHR ''a''),
                      CatchFly ''s1'' ''f1'' (demoFly CHR ''b''),
                      CatchFly ''s1'' ''f2'' (demoFly CHR ''c''),
                      CatchFly ''s1'' ''f3'' (demoFly CHR ''d''),
                      CatchFly ''s1'' ''f4'' (demoFly CHR ''e'')] arena)"

text \<open>
  From there: \<open>A\<close> moves onto the pad of \<open>B\<close> and pushes it (\<open>pushedB\<close>). Either the
  recovery timer of \<open>B\<close> fires when it is due (\<open>recoveredB\<close>), or \<open>B\<close> sends \<open>respawn\<close>
  at once (\<open>respawnedB\<close>), moves one millisecond after the push (\<open>movedB\<close>), and is
  pushed by \<open>A\<close> again two milliseconds after the first push (\<open>pushedAgain\<close>).
\<close>

definition pushedB :: state where
  "pushedB = projr (step (MoveToLilyPad ''s1'' ''pad-0-1'' 1700000000000) bigA)"

definition recoveredB :: state where
  "recoveredB = projr (step (SwimTimeout 0 1700000001000) pushedB)"

definition respawnedB :: state where
  "respawnedB = projr (step (Respawn ''s2'' 0) pushedB)"

definition movedB :: state where
  "movedB = projr (step (MoveToLilyPad ''s2'' ''pad-0-2'' 1700000000001) respawnedB)"

definition pushedAgain :: state where
  "pushedAgain = projr (step (MoveToLilyPad ''s1'' ''pad-0-2'' 1700000000002) movedB)"

section \<open>Properties of the progression model\<close>

lemma cumulativeXP_0: "cumulativeXP 0 = 0"
  by (simp add: cumulativeXP_def)

lemma cumulativeXP_step: "1 \<le> L \<Longrightarrow> cumulativeXP L = cumulativeXP (L - 1) + (3 * L + 2)"
  by (simp add: cumulativeXP_def xpRequiredForLevel_spec_def upto_rec2)

lemma cumulativeXP_closed: "0 \<le> L \<Longrightarrow> 2 * cumulativeXP L = L * (3 * L + 7)"
proof (induction L rule: int_ge_induct)
  case base
  show ?case by (simp add: cumulativeXP_0)
next
  case (step i)
  have "cumulativeXP (i + 1) = cumulativeXP i + (3 * (i + 1) + 2)"
    using step.hyps cumulativeXP_step [of "i + 1"] by simp
  with step.IH show ?case by (simp add: algebra_simps)
qed

lemma cumulativeXP_mono: "K \<le> L \<Longrightarrow> 0 \<le> K \<Longrightarrow> cumulativeXP K \<le> cumulativeXP L"
proof (induction L rule: int_ge_induct)
  case base
  show ?case by simp
next
  case (step i)
  have "cumulativeXP (i + 1) = cumulativeXP i + (3 * (i + 1) + 2)"
    using step cumulativeXP_step [of "i + 1"] by simp
  with step show ?case by simp
qed

lemma getLevelFromXP_loop_char:
  "1 \<le> lvl \<Longrightarrow> lvl \<le> 10 \<Longrightarrow> r = Finite (cumulativeXP (lvl - 1)) \<Longrightarrow>
   lvl \<le> getLevelFromXP_loop n lvl r \<and> getLevelFromXP_loop n lvl r \<le> 10 \<and>
   (getLevelFromXP_loop n lvl r < 10 \<longrightarrow> n < cumulativeXP (getLevelFromXP_loop n lvl r)) \<and>
   (\<forall>L. lvl \<le> L \<and> L < getLevelFromXP_loop n lvl r \<longrightarrow> cumulativeXP L \<le> n)"
proof (induction n lvl r rule: getLevelFromXP_loop.induct)
  case (1 n lvl xpRequired)
  show ?case
  proof (cases "lvl < 10")
    case False
    then have "getLevelFromXP_loop n lvl xpRequired = 10"
      by (subst getLevelFromXP_loop.simps) simp
    then show ?thesis using "1.prems" False by simp
  next
    case True
    then have req: "num_add xpRequired (getRequiredXPForLevel lvl) = Finite (cumulativeXP lvl)"
      using "1.prems" cumulativeXP_step [of lvl] by (simp add: getRequiredXPForLevel_def)
    show ?thesis
    proof (cases "n < cumulativeXP lvl")
      case True
      then show ?thesis using \<open>lvl < 10\<close> req
        by (simp add: getLevelFromXP_loop.simps [of n lvl])
    next
      case False
      have eq: "getLevelFromXP_loop n lvl xpRequired =
                getLevelFromXP_loop n (lvl + 1) (Finite (cumulativeXP lvl))"
        using False \<open>lvl < 10\<close> req by (simp add: getLevelFromXP_loop.simps [of n lvl])
      have IH: "lvl + 1 \<le> getLevelFromXP_loop n (lvl + 1) (Finite (cumulativeXP lvl)) \<and>
        getLevelFromXP_loop n (lvl + 1) (Finite (cumulativeXP lvl)) \<le> 10 \<and>
        (getLevelFromXP_loop n (lvl + 1) (Finite (cumulativeXP lvl)) < 10 \<longrightarrow>
           n < cumulativeXP (getLevelFromXP_loop n (lvl + 1) (Finite (cumulativeXP lvl)))) \<and>
        (\<forall>L. lvl + 1 \<le> L \<and> L < getLevelFromXP_loop n (lvl + 1) (Finite (cumulativeXP lvl))
           \<longrightarrow> cumulativeXP L \<le> n)"
        using "1.IH" [OF \<open>lvl < 10\<close> refl] False req "1.prems" \<open>lvl < 10\<close> by simp
      have "\<forall>L. lvl \<le> L \<and> L < getLevelFromXP_loop n (lvl + 1) (Finite (cumulativeXP lvl))
           \<longrightarrow> cumulativeXP L \<le> n"
      proof (intro allI impI)
        fix L assume L: "lvl \<le> L \<and> L < getLevelFromXP_loop n (lvl + 1) (Finite (cumulativeXP lvl))"
        show "cumulativeXP L \<le> n"
        proof (cases "L = lvl")
          case True then show ?thesis using False by simp
        next
          case False then show ?thesis using L IH by simp
        qed
      qed
      with IH show ?thesis unfolding eq by simp
    qed
  qed
qed

lemma getLevelFromXP_char:
  "1 \<le> getLevelFromXP n \<and> getLevelFromXP n \<le> 10 \<and>
   (getLevelFromXP n < 10 \<longrightarrow> n < cumulativeXP (getLevelFromXP n)) \<and>
   (\<forall>L. 1 \<le> L \<and> L < getLevelFromXP n \<longrightarrow> cumulativeXP L \<le> n)"
  unfolding getLevelFromXP_def
  using getLevelFromXP_loop_char [of 1 "Finite 0" n] by (simp add: cumulativeXP_0)

lemma getLevelFromXP_mono_aux: "m \<le> n \<Longrightarrow> getLevelFromXP m \<le> getLevelFromXP n"
proof (rule ccontr)
  assume mn: "m \<le> n" and "\<not> getLevelFromXP m \<le> getLevelFromXP n"
  then have lt: "getLevelFromXP n < getLevelFromXP m" by simp
  have "getLevelFromXP n < 10" using lt getLevelFromXP_char [of m] by simp
  then have a: "n < cumulativeXP (getLevelFromXP n)" using getLevelFromXP_char [of n] by simp
  have "cumulativeXP (getLevelFromXP n) \<le> m"
    using lt getLevelFromXP_char [of m] getLevelFromXP_char [of n] by blast
  with a mn show False by simp
qed

lemma getLevelFromXP_saturates_aux: "cumulativeXP 9 \<le> n \<Longrightarrow> getLevelFromXP n = 10"
proof (rule ccontr)
  assume n: "cumulativeXP 9 \<le> n" and "getLevelFromXP n \<noteq> 10"
  then have lt: "getLevelFromXP n < 10" using getLevelFromXP_char [of n] by simp
  then have a: "n < cumulativeXP (getLevelFromXP n)" using getLevelFromXP_char [of n] by simp
  have "cumulativeXP (getLevelFromXP n) \<le> cumulativeXP 9"
    using lt getLevelFromXP_char [of n] by (intro cumulativeXP_mono) auto
  with a n show False by simp
qed

lemma cumulativeXP_9: "cumulativeXP 9 = 153"
  using cumulativeXP_closed [of 9] by simp

lemma cumulativeXP_10: "cumulativeXP 10 = 185"
  using cumulativeXP_closed [of 10] by simp

text \<open>
  C4. Below the cap the requirement is \<open>3 * L + 2\<close>; at the cap (level 10 and above) the
  requirement is \<open>Infinity\<close>, which no experience reaches, so that experience beyond the
  cap never advances the level: \<open>getLevelFromXP\<close> stays at 10.
\<close>

theorem getRequiredXPForLevel_formula_and_cap:
  "(L < 10 \<longrightarrow> getRequiredXPForLevel L = Finite (3 * L + 2)) \<and>
   (10 \<le> L \<longrightarrow> getRequiredXPForLevel L = Infinity \<and>
                 (\<forall>n. num_less (Finite n) (getRequiredXPForLevel L))) \<and>
   getLevelFromXP n \<le> 10 \<and>
   (getLevelFromXP m = 10 \<and> m \<le> n \<longrightarrow> getLevelFromXP n = 10)"
proof -
  have "getLevelFromXP m = 10 \<and> m \<le> n \<longrightarrow> getLevelFromXP n = 10"
    using getLevelFromXP_mono_aux [of m n] getLevelFromXP_char [of n] by auto
  moreover have "getLevelFromXP n \<le> 10"
    using getLevelFromXP_char [of n] by simp
  ultimately show ?thesis
    by (simp add: getRequiredXPForLevel_def)
qed

theorem getRequiredXPForLevel_formula_and_cap_witness:
  "(3::int) < 10 \<and> getRequiredXPForLevel 3 = Finite 11 \<and>
   (10::int) \<le> 10 \<and> getRequiredXPForLevel 10 = Infinity \<and>
   num_less (Finite 1000) (getRequiredXPForLevel 10) \<and>
   getLevelFromXP 153 = 10 \<and> (153::int) \<le> 1000 \<and> getLevelFromXP 1000 = 10"
proof -
  have a: "getLevelFromXP 153 = 10"
    by code_simp
  show ?thesis
    using getRequiredXPForLevel_formula_and_cap [of 3 1000 153]
          getRequiredXPForLevel_formula_and_cap [of 10 1000 153] a
    by simp
qed

text \<open>
  C3, as the specification words it, fails: with no experience the code returns level 1,
  while the smallest \<open>L\<close> whose running total over the levels \<open>1..L-1\<close> exceeds 0 is 2
  (the empty total for \<open>L = 1\<close> is 0 and does not exceed 0).
\<close>

theorem levelFromXp_spec_counterexample:
  "getLevelFromXP 0 = 1 \<and> levelFromXp_spec 0 = 2 \<and> \<not> 0 < cumulativeXP (1 - 1)"
  by code_simp

text \<open>
  C3, amended: \<open>getLevelFromXP n\<close> is the smallest level \<open>L \<ge> 1\<close> whose running total of
  required experience over the levels \<open>1..L\<close> exceeds \<open>n\<close>, capped at 10.
\<close>

theorem getLevelFromXP_least:
  "1 \<le> getLevelFromXP n \<and> getLevelFromXP n \<le> 10 \<and>
   (getLevelFromXP n < 10 \<longrightarrow> n < cumulativeXP (getLevelFromXP n)) \<and>
   (\<forall>L. 1 \<le> L \<and> L < getLevelFromXP n \<longrightarrow> cumulativeXP L \<le> n)"
  by (rule getLevelFromXP_char)

theorem getLevelFromXP_least_witness:
  "getLevelFromXP 7 = 2 \<and> getLevelFromXP 7 < 10 \<and> 7 < cumulativeXP (getLevelFromXP 7) \<and>
   (1::int) \<le> 1 \<and> 1 < getLevelFromXP 7 \<and> cumulativeXP 1 \<le> 7"
proof -
  have a: "getLevelFromXP 7 = 2"
    by code_simp
  show ?thesis
    using getLevelFromXP_least [of 7] a by simp
qed

text \<open>
  C9. \<open>getLevelFromXP\<close> is monotonically non-decreasing, never exceeds 10, and is exactly 10
  from the experience needed to reach level 10 (the running total over the levels 1..9,
  which is 153) upwards, hence also from the running total over the levels 1..10 upwards.
\<close>

theorem getLevelFromXP_mono_saturates:
  "(m \<le> n \<longrightarrow> getLevelFromXP m \<le> getLevelFromXP n) \<and>
   (cumulativeXP 9 \<le> n \<longrightarrow> getLevelFromXP n = 10) \<and>
   (cumulativeXP 10 \<le> n \<longrightarrow> getLevelFromXP n = 10) \<and>
   getLevelFromXP n \<le> 10"
proof -
  have "cumulativeXP 10 \<le> n \<longrightarrow> cumulativeXP 9 \<le> n"
    by (simp add: cumulativeXP_9 cumulativeXP_10)
  then show ?thesis
    using getLevelFromXP_mono_aux [of m n] getLevelFromXP_saturates_aux [of n]
          getLevelFromXP_char [of n]
    by blast
qed

theorem getLevelFromXP_mono_saturates_witness:
  "(3::int) \<le> 200 \<and> getLevelFromXP 3 \<le> getLevelFromXP 200 \<and>
   cumulativeXP 9 \<le> 200 \<and> cumulativeXP 10 \<le> 200 \<and> getLevelFromXP 200 = 10"
  using getLevelFromXP_mono_saturates [of 3 200]
  by (simp add: cumulativeXP_9 cumulativeXP_10)


section \<open>Helper lemmas: registry, frame conditions, invariant\<close>


lemma set_update_cases:
  "e \<in> set (AList.update k v al) \<Longrightarrow> e = (k, v) \<or> e \<in> set al"
  by (induction al) (auto split: if_splits)

lemma distinct_snd_update:
  "distinct (map snd al) \<Longrightarrow> v \<notin> snd ` set al \<Longrightarrow> distinct (map snd (AList.update k v al))"
proof (induction al)
  case Nil
  show ?case by simp
next
  case (Cons p al)
  show ?case
  proof (cases "fst p = k")
    case True
    then show ?thesis using Cons.prems by (cases p) auto
  next
    case False
    have "snd p \<notin> snd ` set (AList.update k v al)"
    proof
      assume "snd p \<in> snd ` set (AList.update k v al)"
      then obtain e where e: "e \<in> set (AList.update k v al)" and eq: "snd e = snd p" by auto
      from set_update_cases [OF e] show False
      proof
        assume "e = (k, v)" then show False using eq Cons.prems(2) by auto
      next
        assume "e \<in> set al" then show False using eq Cons.prems(1) by (auto simp: image_iff)
      qed
    qed
    then show ?thesis using False Cons by (cases p) auto
  qed
qed

lemma set_delete_subset: "e \<in> set (AList.delete k al) \<Longrightarrow> e \<in> set al \<and> fst e \<noteq> k"
  by (auto simp: AList.delete_eq)

lemma distinct_snd_delete:
  "distinct (map snd al) \<Longrightarrow> distinct (map snd (AList.delete k al))"
  by (simp add: AList.delete_eq distinct_map_filter)

lemma snd_delete_fresh:
  assumes "distinct (map snd al)" and "map_of al k = Some t" and "e \<in> set (AList.delete k al)"
  shows "snd e \<noteq> t"
proof
  assume eq: "snd e = t"
  have e: "e \<in> set al" and ne: "fst e \<noteq> k" using assms(3) set_delete_subset by fastforce+
  have kt: "(k, t) \<in> set al" using assms(2) by (rule map_of_SomeD)
  have "inj_on snd (set al)" using assms(1) by (simp add: distinct_map)
  moreover have "snd e = snd (k, t)" using eq by simp
  ultimately have "e = (k, t)" using e kt by (rule inj_onD)
  with ne show False by simp
qed

lemma invariant_emit [simp]: "invariant (emit d m s) = invariant s"
  by (simp add: invariant_def emit_def)

lemma invariant_initialState: "invariant (initialState placed fl)"
  by (simp add: invariant_def initialState_def generateLilyPads_def)

lemma healthOK_freshPlayer: "healthOK (freshPlayer sid nm pad)"
  by (simp add: healthOK_def freshPlayer_def)

lemma invariant_registerPlayer:
  assumes "invariant s" and "healthOK p"
  shows "invariant (registerPlayer sid p s)"
proof -
  have fresh: "nextAddr s \<notin> snd ` set (players s)"
    using assms(1) by (auto simp: invariant_def)
  have d: "distinct (map snd (AList.update sid (nextAddr s) (players s)))"
    using assms(1) fresh by (intro distinct_snd_update) (auto simp: invariant_def)
  have "\<forall>e \<in> set (AList.update sid (nextAddr s) (players s)).
          snd e < Suc (nextAddr s) \<and> healthOK (((heap s)(nextAddr s := p)) (snd e))"
  proof
    fix e assume "e \<in> set (AList.update sid (nextAddr s) (players s))"
    then consider "e = (sid, nextAddr s)" | "e \<in> set (players s)"
      using set_update_cases by fastforce
    then show "snd e < Suc (nextAddr s) \<and> healthOK (((heap s)(nextAddr s := p)) (snd e))"
    proof cases
      case 1 then show ?thesis using assms(2) by simp
    next
      case 2 then show ?thesis using assms(1) by (auto simp: invariant_def)
    qed
  qed
  with d show ?thesis using assms(1) by (simp add: invariant_def registerPlayer_def)
qed

lemma invariant_newPlayer:
  "invariant s \<Longrightarrow> newPlayer sid nm rnd s = Inr s' \<Longrightarrow> invariant s'"
proof -
  assume inv: "invariant s" and st: "newPlayer sid nm rnd s = Inr s'"
  have pre: "\<And>x y z. invariant (s\<lparr>takenUsernames := x, socketPlayerName := y, playerNames := z\<rparr>)"
    using inv by (simp add: invariant_def)
  show ?thesis
    using st inv
    by (auto simp: newPlayer_def Let_def split: if_splits option.splits
             intro!: invariant_registerPlayer healthOK_freshPlayer pre)
qed

lemma invariant_respawn:
  "invariant s \<Longrightarrow> respawn sid rnd s = Inr s' \<Longrightarrow> invariant s'"
  by (auto simp: respawn_def Let_def split: option.splits
           intro!: invariant_registerPlayer healthOK_freshPlayer)


lemma healthOK_cong:
  "health p = health q \<Longrightarrow> maxHealth p = maxHealth q \<Longrightarrow> healthOK p = healthOK q"
  by (simp add: healthOK_def)

lemma pushStep_frame:
  "players (pushStep sid a pad t e s) = players s"
  "nextAddr (pushStep sid a pad t e s) = nextAddr s"
  "lilyPads (pushStep sid a pad t e s) = lilyPads s"
  "flies (pushStep sid a pad t e s) = flies s"
  "takenUsernames (pushStep sid a pad t e s) = takenUsernames s"
  "playerNames (pushStep sid a pad t e s) = playerNames s"
  "socketPlayerName (pushStep sid a pad t e s) = socketPlayerName s"
  "lastAttackTime (pushStep sid a pad t e s) = lastAttackTime s"
  by (simp_all add: pushStep_def Let_def emit_def)

lemma pushStep_heap:
  "(heap (pushStep sid a pad t e s) c)\<lparr>isSwimming := False, lastPushTime := 0\<rparr> =
   (heap s c)\<lparr>isSwimming := False, lastPushTime := 0\<rparr>"
  by (simp add: pushStep_def Let_def emit_def)

lemma fold_pushStep_frame:
  "players (fold (pushStep sid a pad t) es s) = players s \<and>
   nextAddr (fold (pushStep sid a pad t) es s) = nextAddr s \<and>
   lilyPads (fold (pushStep sid a pad t) es s) = lilyPads s \<and>
   flies (fold (pushStep sid a pad t) es s) = flies s \<and>
   takenUsernames (fold (pushStep sid a pad t) es s) = takenUsernames s \<and>
   playerNames (fold (pushStep sid a pad t) es s) = playerNames s \<and>
   socketPlayerName (fold (pushStep sid a pad t) es s) = socketPlayerName s \<and>
   lastAttackTime (fold (pushStep sid a pad t) es s) = lastAttackTime s"
  by (induction es arbitrary: s) (simp_all add: pushStep_frame)

lemma fold_pushStep_heap:
  "(heap (fold (pushStep sid a pad t) es s) c)\<lparr>isSwimming := False, lastPushTime := 0\<rparr> =
   (heap s c)\<lparr>isSwimming := False, lastPushTime := 0\<rparr>"
  by (induction es arbitrary: s) (simp_all add: pushStep_heap)

lemma unswim_eq_fields:
  assumes "p\<lparr>isSwimming := False, lastPushTime := 0\<rparr> = q\<lparr>isSwimming := False, lastPushTime := 0\<rparr>"
  shows "health p = health q" "maxHealth p = maxHealth q" "p_x p = p_x q" "p_y p = p_y q"
        "p_size p = p_size q" "p_id p = p_id q" "p_name p = p_name q"
        "p_level p = p_level q" "p_xp p = p_xp q"
  using arg_cong [OF assms, of health] arg_cong [OF assms, of maxHealth]
        arg_cong [OF assms, of p_x] arg_cong [OF assms, of p_y] arg_cong [OF assms, of p_size]
        arg_cong [OF assms, of p_id] arg_cong [OF assms, of p_name]
        arg_cong [OF assms, of p_level] arg_cong [OF assms, of p_xp]
  by simp_all

lemmas fold_pushStep_fields = unswim_eq_fields [OF fold_pushStep_heap]


lemma invariant_irrelevant [simp]:
  "invariant (s\<lparr>takenUsernames := tu\<rparr>) = invariant s"
  "invariant (s\<lparr>playerNames := pn\<rparr>) = invariant s"
  "invariant (s\<lparr>socketPlayerName := sn\<rparr>) = invariant s"
  "invariant (s\<lparr>lastAttackTime := la\<rparr>) = invariant s"
  "invariant (s\<lparr>timers := ti\<rparr>) = invariant s"
  "invariant (s\<lparr>outbox := ob\<rparr>) = invariant s"
  "invariant (s\<lparr>flies := fl\<rparr>) = invariant s"
  by (simp_all add: invariant_def)

lemma invariant_delete: "invariant s \<Longrightarrow> invariant (s\<lparr>players := AList.delete k (players s)\<rparr>)"
proof -
  assume inv: "invariant s"
  have "\<forall>e \<in> set (AList.delete k (players s)). snd e < nextAddr s \<and> healthOK (heap s (snd e))"
  proof
    fix e assume "e \<in> set (AList.delete k (players s))"
    then have "e \<in> set (players s)" using set_delete_subset by fastforce
    then show "snd e < nextAddr s \<and> healthOK (heap s (snd e))"
      using inv by (simp add: invariant_def)
  qed
  then show ?thesis using inv by (simp add: invariant_def distinct_snd_delete)
qed

lemma invariant_disconnect:
  assumes inv: "invariant s" and st: "disconnect sid s = Inr s'"
  shows "invariant s'"
proof (cases "map_of (players s) sid = None")
  case True
  then have "s' = s" using st by (simp add: disconnect_def)
  then show ?thesis using inv by simp
next
  case False
  then have "s' = emit Everyone (PlayerDisconnected sid)
      (case truthy (socketPlayerName s sid) of
         None \<Rightarrow> s\<lparr>players := AList.delete sid (players s), playerNames := (playerNames s)(sid := None)\<rparr>
       | Some n \<Rightarrow> s\<lparr>players := AList.delete sid (players s), playerNames := (playerNames s)(sid := None),
                     takenUsernames := takenUsernames s - {n}\<rparr>)"
    using st by (simp add: disconnect_def Let_def split: option.splits)
  then show ?thesis
    using invariant_delete [OF inv, of sid] by (simp split: option.splits)
qed


lemma invariant_heap_update:
  assumes inv: "invariant s" and ok: "healthOK p"
  shows "invariant (s\<lparr>heap := (heap s)(a := p)\<rparr>)"
  using inv ok by (simp add: invariant_def)

lemma invariant_heap_same_health:
  assumes inv: "invariant s"
    and h: "\<And>c. health (hp c) = health (heap s c)" "\<And>c. maxHealth (hp c) = maxHealth (heap s c)"
  shows "invariant (s\<lparr>heap := hp\<rparr>)"
proof -
  have "\<And>c. healthOK (hp c) = healthOK (heap s c)"
    by (rule healthOK_cong) (simp_all add: h)
  then show ?thesis using inv by (simp add: invariant_def)
qed

lemma invariant_swimTimeout:
  assumes inv: "invariant s" and st: "swimTimeout k t s = Inr s'"
  shows "invariant s'"
proof -
  let ?b = "fst (snd (timers s ! k))"
  have a: "invariant (s\<lparr>heap := (heap s)(?b := (heap s ?b)\<lparr>isSwimming := False\<rparr>)\<rparr>)"
    by (rule invariant_heap_same_health [OF inv]) simp_all
  have "s' = s \<or> s' = s\<lparr>timers := splice1 k (timers s)\<rparr> \<or>
        s' = emit Everyone (PlayerCanMove (snd (snd (timers s ! k))))
               (s\<lparr>timers := splice1 k (timers s),
                  heap := (heap s)(?b := (heap s ?b)\<lparr>isSwimming := False\<rparr>)\<rparr>)"
    using st by (simp add: swimTimeout_def Let_def split: if_splits)
  then show ?thesis
  proof (elim disjE)
    assume "s' = s" then show ?thesis using inv by simp
  next
    assume "s' = s\<lparr>timers := splice1 k (timers s)\<rparr>" then show ?thesis using inv by simp
  next
    assume "s' = emit Everyone (PlayerCanMove (snd (snd (timers s ! k))))
               (s\<lparr>timers := splice1 k (timers s),
                  heap := (heap s)(?b := (heap s ?b)\<lparr>isSwimming := False\<rparr>)\<rparr>)"
    moreover have "invariant (s\<lparr>timers := splice1 k (timers s),
                  heap := (heap s)(?b := (heap s ?b)\<lparr>isSwimming := False\<rparr>)\<rparr>) =
       invariant (s\<lparr>heap := (heap s)(?b := (heap s ?b)\<lparr>isSwimming := False\<rparr>)\<rparr>)"
      by (simp add: invariant_def)
    ultimately show ?thesis using a by simp
  qed
qed

lemma moveToLilyPad_cases:
  assumes st: "moveToLilyPad sid padId t s = Inr s'"
  shows "s' = s \<or>
    (\<exists>a pad. map_of (players s) sid = Some a \<and> \<not> isSwimming (heap s a) \<and>
       find (\<lambda>pad. pad_id pad = padId) (lilyPads s) = Some pad \<and>
       s' = emit Everyone (PlayerHealthUpdate sid (health (heap s a)) (maxHealth (heap s a)))
              (emit Everyone (PlayerMoved sid (pad_x pad) (pad_y pad) (health (heap s a))
                                (maxHealth (heap s a)))
                ((fold (pushStep sid a pad t) (players s) s)
                   \<lparr>heap := (heap (fold (pushStep sid a pad t) (players s) s))
                      (a := (heap (fold (pushStep sid a pad t) (players s) s) a)
                         \<lparr>p_x := pad_x pad, p_y := pad_y pad, health := health (heap s a),
                          maxHealth := maxHealth (heap s a)\<rparr>)\<rparr>)))"
proof (cases "map_of (players s) sid")
  case None
  then show ?thesis using st by (simp add: moveToLilyPad_def)
next
  case (Some a)
  show ?thesis
  proof (cases "isSwimming (heap s a)")
    case True
    then show ?thesis using st Some by (simp add: moveToLilyPad_def)
  next
    case False
    show ?thesis
    proof (cases "find (\<lambda>pad. pad_id pad = padId) (lilyPads s)")
      case None
      then show ?thesis using st Some False by (simp add: moveToLilyPad_def)
    next
      case (Some pad)
      then show ?thesis using st \<open>map_of (players s) sid = Some a\<close> False
        by (simp add: moveToLilyPad_def Let_def)
    qed
  qed
qed

lemma invariant_fold_pushStep:
  assumes inv: "invariant s"
  shows "invariant (fold (pushStep sid a pad t) es s)"
proof -
  let ?s1 = "fold (pushStep sid a pad t) es s"
  have hk: "\<And>c. healthOK (heap ?s1 c) = healthOK (heap s c)"
    by (rule healthOK_cong) (simp_all add: fold_pushStep_fields)
  show ?thesis
    using inv fold_pushStep_frame [of sid a pad t es s] by (simp add: invariant_def hk)
qed

lemma invariant_moveToLilyPad:
  assumes inv: "invariant s" and st: "moveToLilyPad sid padId t s = Inr s'"
  shows "invariant s'"
  using moveToLilyPad_cases [OF st]
proof (elim disjE exE conjE)
  assume "s' = s" then show ?thesis using inv by simp
next
  fix a pad
  let ?s1 = "fold (pushStep sid a pad t) (players s) s"
  let ?p = "(heap ?s1 a)\<lparr>p_x := pad_x pad, p_y := pad_y pad, health := health (heap s a),
                          maxHealth := maxHealth (heap s a)\<rparr>"
  assume a: "map_of (players s) sid = Some a"
    and s': "s' = emit Everyone (PlayerHealthUpdate sid (health (heap s a)) (maxHealth (heap s a)))
              (emit Everyone (PlayerMoved sid (pad_x pad) (pad_y pad) (health (heap s a))
                                (maxHealth (heap s a)))
                (?s1\<lparr>heap := (heap ?s1)(a := ?p)\<rparr>))"
  have "(sid, a) \<in> set (players s)" using a by (rule map_of_SomeD)
  then have "healthOK (heap s a)" using inv by (auto simp: invariant_def)
  moreover have "healthOK ?p = healthOK (heap s a)"
    by (rule healthOK_cong) simp_all
  ultimately have "invariant (?s1\<lparr>heap := (heap ?s1)(a := ?p)\<rparr>)"
    by (intro invariant_heap_update invariant_fold_pushStep inv) simp
  then show ?thesis unfolding s' by simp
qed


lemma emit_sel [simp]:
  "players (emit d m s) = players s"
  "heap (emit d m s) = heap s"
  "nextAddr (emit d m s) = nextAddr s"
  "flies (emit d m s) = flies s"
  "lilyPads (emit d m s) = lilyPads s"
  "playerNames (emit d m s) = playerNames s"
  "takenUsernames (emit d m s) = takenUsernames s"
  "socketPlayerName (emit d m s) = socketPlayerName s"
  "lastAttackTime (emit d m s) = lastAttackTime s"
  "timers (emit d m s) = timers s"
  "outbox (emit d m s) = outbox s @ [(d, m)]"
  by (simp_all add: emit_def)

lemma tongueAttack_noop:
  "map_of (players s) sid = None \<or> map_of (players s) tid = None \<or>
   now - lastAttackOf s sid tid < 500 \<Longrightarrow> tongueAttack sid tid now s = Inr s"
  by (auto simp: tongueAttack_def split: option.splits)

lemma tongueAttack_applied:
  assumes "map_of (players s) sid = Some a" and "map_of (players s) tid = Some t"
    and "\<not> now - lastAttackOf s sid tid < 500"
  shows "tongueAttack sid tid now s =
     Inr (if max 0 (health (heap s t) - 10) \<le> 0
          then emit Everyone (PlayerDied tid)
                 (s\<lparr>lastAttackTime := (lastAttackTime s)(sid := (lastAttackTime s sid)(tid \<mapsto> now)),
                    heap := (heap s)(t := (heap s t)\<lparr>health := max 0 (health (heap s t) - 10)\<rparr>),
                    players := AList.delete tid (players s)\<rparr>)
          else emit Everyone (PlayerDamaged tid (max 0 (health (heap s t) - 10)) (maxHealth (heap s t)) 10)
                 (s\<lparr>lastAttackTime := (lastAttackTime s)(sid := (lastAttackTime s sid)(tid \<mapsto> now)),
                    heap := (heap s)(t := (heap s t)\<lparr>health := max 0 (health (heap s t) - 10)\<rparr>)\<rparr>))"
  using assms by (simp add: tongueAttack_def Let_def)

lemma invariant_tongueAttack:
  assumes inv: "invariant s" and st: "tongueAttack sid tid now s = Inr s'"
  shows "invariant s'"
proof (cases "map_of (players s) sid = None \<or> map_of (players s) tid = None \<or>
   now - lastAttackOf s sid tid < 500")
  case True
  then have "s' = s" using st tongueAttack_noop [of s sid tid now] by simp
  then show ?thesis using inv by simp
next
  case False
  then obtain a t where a: "map_of (players s) sid = Some a" and t: "map_of (players s) tid = Some t"
    and cd: "\<not> now - lastAttackOf s sid tid < 500" by auto
  let ?h = "max 0 (health (heap s t) - 10)"
  let ?hp = "(heap s)(t := (heap s t)\<lparr>health := ?h\<rparr>)"
  have tin: "(tid, t) \<in> set (players s)" using t by (rule map_of_SomeD)
  have okt: "healthOK (heap s t)" using inv tin by (auto simp: invariant_def)
  have d: "distinct (map snd (players s))" using inv by (simp add: invariant_def)
  show ?thesis
  proof (cases "?h \<le> 0")
    case True
    then have s': "s' = emit Everyone (PlayerDied tid)
                 (s\<lparr>lastAttackTime := (lastAttackTime s)(sid := (lastAttackTime s sid)(tid \<mapsto> now)),
                    heap := ?hp, players := AList.delete tid (players s)\<rparr>)"
      using st tongueAttack_applied [OF a t cd] by simp
    have "\<forall>e \<in> set (AList.delete tid (players s)).
            snd e < nextAddr s \<and> healthOK (?hp (snd e))"
    proof
      fix e assume e: "e \<in> set (AList.delete tid (players s))"
      have "snd e \<noteq> t" using snd_delete_fresh [OF d t e] .
      moreover have "e \<in> set (players s)" using e set_delete_subset by fastforce
      ultimately show "snd e < nextAddr s \<and> healthOK (?hp (snd e))"
        using inv by (simp add: invariant_def)
    qed
    then show ?thesis unfolding s'
      using inv by (simp add: invariant_def distinct_snd_delete)
  next
    case False
    then have s': "s' = emit Everyone (PlayerDamaged tid ?h (maxHealth (heap s t)) 10)
                 (s\<lparr>lastAttackTime := (lastAttackTime s)(sid := (lastAttackTime s sid)(tid \<mapsto> now)),
                    heap := ?hp\<rparr>)"
      using st tongueAttack_applied [OF a t cd] by simp
    have "health (heap s t) mod 10 = 0 \<Longrightarrow> (health (heap s t) - 10) mod 10 = 0"
      by presburger
    then have "healthOK ((heap s t)\<lparr>health := ?h\<rparr>)"
      using okt False by (simp add: healthOK_def max_def split: if_splits)
    then have "invariant (s\<lparr>heap := ?hp\<rparr>)"
      by (rule invariant_heap_update [OF inv])
    then show ?thesis unfolding s' by (simp add: invariant_def)
  qed
qed


lemma catchFly_noop:
  "map_of (players s) sid = None \<or> findIndex (\<lambda>f. fly_id f = flyId) (flies s) = None
   \<Longrightarrow> catchFly sid flyId newFly s = Inr s"
  by (auto simp: catchFly_def split: option.splits)

lemma catchFly_applied:
  assumes "map_of (players s) sid = Some a"
    and "findIndex (\<lambda>f. fly_id f = flyId) (flies s) = Some i"
  shows "catchFly sid flyId newFly s =
     Inr (s\<lparr>flies := splice1 i (flies s) @ [newFly],
            heap := (heap s)(a := caught (heap s a)),
            outbox := outbox s @
              [(Everyone, FlyCaught flyId sid (p_size (caught (heap s a))) (health (caught (heap s a)))
                   (maxHealth (caught (heap s a))) (p_level (caught (heap s a)))
                   (p_xp (caught (heap s a))) (getLevelFromXP (p_xp (heap s a) + 1) > p_level (heap s a))),
               (Everyone, NewFly newFly)]\<rparr>)"
  using assms by (simp add: catchFly_def Let_def emit_def caught_def)

lemma healthOK_caught: "healthOK p \<Longrightarrow> healthOK (caught p)"
  using getLevelFromXP_char [of "p_xp p + 1"]
  by (simp add: caught_def healthOK_def)

lemma invariant_catchFly:
  assumes inv: "invariant s" and st: "catchFly sid flyId newFly s = Inr s'"
  shows "invariant s'"
proof (cases "map_of (players s) sid = None \<or> findIndex (\<lambda>f. fly_id f = flyId) (flies s) = None")
  case True
  then have "s' = s" using st catchFly_noop [of s sid flyId newFly] by simp
  then show ?thesis using inv by simp
next
  case False
  then obtain a i where a: "map_of (players s) sid = Some a"
    and i: "findIndex (\<lambda>f. fly_id f = flyId) (flies s) = Some i" by auto
  have "(sid, a) \<in> set (players s)" using a by (rule map_of_SomeD)
  then have "healthOK (heap s a)" using inv by (auto simp: invariant_def)
  then have "healthOK (caught (heap s a))" by (rule healthOK_caught)
  then have "invariant (s\<lparr>heap := (heap s)(a := caught (heap s a))\<rparr>)"
    by (rule invariant_heap_update [OF inv])
  moreover have "s' = (s\<lparr>flies := splice1 i (flies s) @ [newFly],
            heap := (heap s)(a := caught (heap s a)),
            outbox := outbox s @
              [(Everyone, FlyCaught flyId sid (p_size (caught (heap s a))) (health (caught (heap s a)))
                   (maxHealth (caught (heap s a))) (p_level (caught (heap s a)))
                   (p_xp (caught (heap s a))) (getLevelFromXP (p_xp (heap s a) + 1) > p_level (heap s a))),
               (Everyone, NewFly newFly)]\<rparr>)"
    using catchFly_applied [OF a i, of newFly] by (simp add: st)
  ultimately show ?thesis by (simp add: invariant_def)
qed

lemma invariant_step: "invariant s \<Longrightarrow> step e s = Inr s' \<Longrightarrow> invariant s'"
proof (cases e)
  case (CheckName sid nm)
  assume "invariant s" "step e s = Inr s'"
  then show ?thesis using CheckName by (auto simp: checkName_def)
qed (auto intro: invariant_newPlayer invariant_respawn invariant_moveToLilyPad
       invariant_tongueAttack invariant_catchFly invariant_disconnect invariant_swimTimeout)

lemma reachable_invariant: "reachable s \<Longrightarrow> invariant s"
  by (induction rule: reachable.induct) (auto intro: invariant_initialState invariant_step)

lemma reachable_run: "reachable s \<Longrightarrow> run es s = Inr s' \<Longrightarrow> reachable s'"
proof (induction es arbitrary: s)
  case Nil
  then show ?case by simp
next
  case (Cons e es)
  then show ?case
    by (auto split: sum.splits intro: reachable.reach_step)
qed

lemmas eval_defs = demoInit_def demoPads_def demoFlies_def demoFly_def initialState_def
  generateLilyPads_def centerPad_def worldWidth_def worldHeight_def
  newPlayer_def respawn_def respawnName_def truthy_def registerPlayer_def freshPlayer_def
  findUnoccupiedLilyPad_def playerValues_def nth_opt_def
  moveToLilyPad_def pushStep_def swimTimeout_def splice1_def
  tongueAttack_def lastAttackOf_def catchFly_def disconnect_def checkName_def
  emit_def Let_def

lemma demoInit_reachable: "reachable demoInit"
  unfolding demoInit_def by (rule reachable.reach_init) (simp add: demoFlies_def)

lemma arena_run:
  "run [NewPlayer ''s1'' ''A'' 0, NewPlayer ''s2'' ''B'' 0, NewPlayer ''s3'' ''T'' 0] demoInit
   = Inr arena"
  unfolding arena_def by (simp add: eval_defs)

lemma arena_reachable: "reachable arena"
  by (rule reachable_run [OF demoInit_reachable arena_run])

text \<open>
  C5. In every state the server can reach, the health of every registered player is at
  least 0 and at most the player's maximal health.
\<close>

theorem health_within_bounds:
  assumes "reachable s" and "(i, a) \<in> set (players s)"
  shows "0 \<le> health (heap s a) \<and> health (heap s a) \<le> maxHealth (heap s a)"
proof -
  have "invariant s" using assms(1) by (rule reachable_invariant)
  then have "healthOK (heap s a)" using assms(2) by (auto simp: invariant_def)
  then show ?thesis by (simp add: healthOK_def)
qed

lemma arena_hit_step: "step (TongueAttack ''s1'' ''s3'' 1700000000000) arena = Inr arena_hit"
  unfolding arena_hit_def arena_def by (simp add: eval_defs)

lemma arena_hit_reachable: "reachable arena_hit"
  by (rule reachable.reach_step [OF arena_reachable arena_hit_step])

theorem health_within_bounds_witness:
  "reachable arena_hit \<and> (''s3'', 2) \<in> set (players arena_hit) \<and>
   health (heap arena_hit 2) = 40 \<and> maxHealth (heap arena_hit 2) = 50 \<and>
   0 \<le> health (heap arena_hit 2) \<and> health (heap arena_hit 2) \<le> maxHealth (heap arena_hit 2)"
proof -
  have m: "(''s3'', 2) \<in> set (players arena_hit)"
    unfolding arena_hit_def arena_def by (simp add: eval_defs)
  have v: "health (heap arena_hit 2) = 40" "maxHealth (heap arena_hit 2) = 50"
    unfolding arena_hit_def arena_def by (simp_all add: eval_defs)
  show ?thesis
    using health_within_bounds [OF arena_hit_reachable m] arena_hit_reachable m v by simp
qed

text \<open>
  C8. \<open>moveToLilyPad\<close> changes nothing (and sends nothing) when the caller has no
  player, when the caller's player is swimming, or when no pad has the given id. Otherwise
  the mover's coordinates become those of the pad, and the mover's health and maximal
  health are what they were.
\<close>

theorem moveToLilyPad_noop_or_moves:
  "(map_of (players s) sid = None \<or>
    (\<exists>a. map_of (players s) sid = Some a \<and> isSwimming (heap s a)) \<or>
    find (\<lambda>pad. pad_id pad = padId) (lilyPads s) = None
      \<longrightarrow> step (MoveToLilyPad sid padId now) s = Inr s) \<and>
   (map_of (players s) sid = Some a \<and> \<not> isSwimming (heap s a) \<and>
    find (\<lambda>pad. pad_id pad = padId) (lilyPads s) = Some pad
      \<longrightarrow> (\<exists>s'. step (MoveToLilyPad sid padId now) s = Inr s' \<and>
                map_of (players s') sid = Some a \<and>
                p_x (heap s' a) = pad_x pad \<and> p_y (heap s' a) = pad_y pad \<and>
                health (heap s' a) = health (heap s a) \<and>
                maxHealth (heap s' a) = maxHealth (heap s a)))"
proof (intro conjI impI)
  assume "map_of (players s) sid = None \<or>
    (\<exists>a. map_of (players s) sid = Some a \<and> isSwimming (heap s a)) \<or>
    find (\<lambda>pad. pad_id pad = padId) (lilyPads s) = None"
  then show "step (MoveToLilyPad sid padId now) s = Inr s"
    by (auto simp: moveToLilyPad_def split: option.splits)
next
  assume h: "map_of (players s) sid = Some a \<and> \<not> isSwimming (heap s a) \<and>
    find (\<lambda>pad. pad_id pad = padId) (lilyPads s) = Some pad"
  have "players (fold (pushStep sid a pad now) (players s) s) = players s"
    using fold_pushStep_frame [of sid a pad now "players s" s] by simp
  then show "\<exists>s'. step (MoveToLilyPad sid padId now) s = Inr s' \<and>
                map_of (players s') sid = Some a \<and>
                p_x (heap s' a) = pad_x pad \<and> p_y (heap s' a) = pad_y pad \<and>
                health (heap s' a) = health (heap s a) \<and>
                maxHealth (heap s' a) = maxHealth (heap s a)"
    using h by (simp add: moveToLilyPad_def Let_def)
qed

theorem moveToLilyPad_noop_or_moves_witness:
  "map_of (players arena) ''nobody'' = None \<and>
   step (MoveToLilyPad ''nobody'' ''pad-0-1'' 1700000000000) arena = Inr arena \<and>
   map_of (players arena) ''s3'' = Some 2 \<and> \<not> isSwimming (heap arena 2) \<and>
   find (\<lambda>pad. pad_id pad = ''pad-center'') (lilyPads arena) = Some centerPad \<and>
   (\<exists>s'. step (MoveToLilyPad ''s3'' ''pad-center'' 1700000000000) arena = Inr s' \<and>
         map_of (players s') ''s3'' = Some 2 \<and>
         p_x (heap s' 2) = 1200 \<and> p_y (heap s' 2) = 900 \<and>
         health (heap s' 2) = 50 \<and> maxHealth (heap s' 2) = 50)"
proof -
  have a: "map_of (players arena) ''nobody'' = None"
    unfolding arena_def by (simp add: eval_defs)
  have b: "map_of (players arena) ''s3'' = Some 2 \<and> \<not> isSwimming (heap arena 2) \<and>
    find (\<lambda>pad. pad_id pad = ''pad-center'') (lilyPads arena) = Some centerPad"
    unfolding arena_def by (simp add: eval_defs)
  have c: "health (heap arena 2) = 50" "maxHealth (heap arena 2) = 50"
    unfolding arena_def by (simp_all add: eval_defs)
  have d: "pad_x centerPad = 1200" "pad_y centerPad = 900"
    by (simp_all add: centerPad_def worldWidth_def worldHeight_def)
  show ?thesis
    using moveToLilyPad_noop_or_moves [of arena "''nobody''" "''pad-0-1''" 1700000000000]
          moveToLilyPad_noop_or_moves [of arena "''s3''" "''pad-center''" 1700000000000 2 centerPad]
          a b c d
    by simp
qed

lemma findIndex_Some:
  "findIndex P xs = Some i \<Longrightarrow> i < length xs \<and> P (xs ! i) \<and> (\<forall>j<i. \<not> P (xs ! j))"
proof (induction xs arbitrary: i)
  case Nil
  then show ?case by simp
next
  case (Cons x xs)
  show ?case
  proof (cases "P x")
    case True
    then show ?thesis using Cons.prems by auto
  next
    case False
    then obtain k where k: "findIndex P xs = Some k" and i: "i = Suc k"
      using Cons.prems by (auto split: option.splits)
    have "k < length xs \<and> P (xs ! k) \<and> (\<forall>j<k. \<not> P (xs ! j))"
      using Cons.IH [OF k] .
    then show ?thesis using False i by (auto simp: nth_Cons split: nat.splits)
  qed
qed

lemma findIndex_None: "findIndex P xs = None \<longleftrightarrow> (\<forall>x \<in> set xs. \<not> P x)"
  by (induction xs) (auto split: option.splits)

lemma length_splice1: "i < length xs \<Longrightarrow> length (splice1 i xs) = length xs - 1"
  by (simp add: splice1_def)

text \<open>
  C6, as stated, fails: a \<open>catchFly\<close> that names a fly of the population but comes from
  a connection without a registered player removes nothing and adds nothing.
\<close>

theorem catchFly_unregistered_counterexample:
  "findIndex (\<lambda>f. fly_id f = ''f0'') (flies demoInit) = Some 0 \<and>
   map_of (players demoInit) ''s1'' = None \<and>
   step (CatchFly ''s1'' ''f0'' (demoFly CHR ''x'')) demoInit = Inr demoInit \<and>
   demoFly CHR ''0'' \<in> set (flies demoInit) \<and> demoFly CHR ''x'' \<notin> set (flies demoInit)"
  by (simp add: eval_defs)

text \<open>
  C6, amended: a \<open>catchFly\<close> from a connection with a registered player that names a
  fly id of the population removes exactly the first fly with that id and appends exactly
  the freshly generated fly, so that the size of the population is unchanged; when the fly
  id is unknown, or the caller has no registered player, the state is unchanged.
\<close>

theorem catchFly_population:
  "(map_of (players s) sid = Some a \<and> flyId \<in> fly_id ` set (flies s) \<longrightarrow>
      (\<exists>s' i. step (CatchFly sid flyId newFly) s = Inr s' \<and>
         i < length (flies s) \<and> fly_id (flies s ! i) = flyId \<and>
         (\<forall>j<i. fly_id (flies s ! j) \<noteq> flyId) \<and>
         flies s' = take i (flies s) @ drop (Suc i) (flies s) @ [newFly] \<and>
         length (flies s') = length (flies s))) \<and>
   (flyId \<notin> fly_id ` set (flies s) \<or> map_of (players s) sid = None \<longrightarrow>
      step (CatchFly sid flyId newFly) s = Inr s)"
proof (intro conjI impI)
  assume h: "map_of (players s) sid = Some a \<and> flyId \<in> fly_id ` set (flies s)"
  then have "findIndex (\<lambda>f. fly_id f = flyId) (flies s) \<noteq> None"
    by (auto simp: findIndex_None)
  then obtain i where i: "findIndex (\<lambda>f. fly_id f = flyId) (flies s) = Some i" by auto
  have p: "i < length (flies s) \<and> fly_id (flies s ! i) = flyId \<and>
           (\<forall>j<i. fly_id (flies s ! j) \<noteq> flyId)"
    using findIndex_Some [OF i] by simp
  have a: "map_of (players s) sid = Some a" using h by simp
  show "\<exists>s' i. step (CatchFly sid flyId newFly) s = Inr s' \<and>
         i < length (flies s) \<and> fly_id (flies s ! i) = flyId \<and>
         (\<forall>j<i. fly_id (flies s ! j) \<noteq> flyId) \<and>
         flies s' = take i (flies s) @ drop (Suc i) (flies s) @ [newFly] \<and>
         length (flies s') = length (flies s)"
    using p by (simp add: catchFly_applied [OF a i] splice1_def) fastforce
next
  assume "flyId \<notin> fly_id ` set (flies s) \<or> map_of (players s) sid = None"
  then have "map_of (players s) sid = None \<or>
             findIndex (\<lambda>f. fly_id f = flyId) (flies s) = None"
    by (auto simp: findIndex_None)
  then show "step (CatchFly sid flyId newFly) s = Inr s"
    using catchFly_noop [of s sid flyId newFly] by simp
qed

theorem catchFly_population_witness:
  "map_of (players arena) ''s1'' = Some 0 \<and> ''f3'' \<in> fly_id ` set (flies arena) \<and>
   (\<exists>s' i. step (CatchFly ''s1'' ''f3'' (demoFly CHR ''x'')) arena = Inr s' \<and>
         i < length (flies arena) \<and> fly_id (flies arena ! i) = ''f3'' \<and>
         flies s' = take i (flies arena) @ drop (Suc i) (flies arena) @ [demoFly CHR ''x''] \<and>
         length (flies s') = length (flies arena)) \<and>
   ''zz'' \<notin> fly_id ` set (flies arena) \<and>
   step (CatchFly ''s1'' ''zz'' (demoFly CHR ''x'')) arena = Inr arena"
proof -
  have a: "map_of (players arena) ''s1'' = Some 0"
    unfolding arena_def by (simp add: eval_defs)
  have fl: "flies arena = demoFlies"
    unfolding arena_def by (simp add: eval_defs)
  have b: "''f3'' \<in> fly_id ` set (flies arena)" "''zz'' \<notin> fly_id ` set (flies arena)"
    unfolding fl by (simp_all add: demoFlies_def demoFly_def)
  show ?thesis
    using catchFly_population [of arena "''s1''" 0 "''f3''" "demoFly CHR ''x''"]
          catchFly_population [of arena "''s1''" 0 "''zz''" "demoFly CHR ''x''"] a b
    by simp blast
qed

lemma random_index_in_range:
  assumes "0 \<le> rnd" and "rnd < 1" and "0 < n"
  shows "0 \<le> \<lfloor>rnd * real n\<rfloor> \<and> \<lfloor>rnd * real n\<rfloor> < int n"
proof -
  have "0 \<le> rnd * real n" using assms by simp
  then have a: "0 \<le> \<lfloor>rnd * real n\<rfloor>" by simp
  have "rnd * real n < 1 * real n" using assms by (intro mult_strict_right_mono) simp_all
  then have "rnd * real n < real_of_int (int n)" by simp
  then have "\<lfloor>rnd * real n\<rfloor> < int n" by (simp only: floor_less_iff)
  with a show ?thesis by simp
qed

lemma findUnoccupiedLilyPad_Some:
  assumes ne: "lilyPads s \<noteq> []" and r: "0 \<le> rnd" "rnd < 1"
  shows "\<exists>pad. findUnoccupiedLilyPad s rnd = Some pad \<and> pad \<in> set (lilyPads s) \<and>
           (unoccupied s pad \<or>
            (filter (unoccupied s) (lilyPads s) = [] \<and> pad = hd (lilyPads s)))"
proof (cases "filter (unoccupied s) (lilyPads s) = []")
  case True
  then have "findUnoccupiedLilyPad s rnd = Some (hd (lilyPads s))"
    using ne by (simp add: findUnoccupiedLilyPad_def unoccupied_def [abs_def] nth_opt_def hd_conv_nth Let_def)
  then show ?thesis using True ne by simp
next
  case False
  let ?u = "filter (unoccupied s) (lilyPads s)"
  let ?i = "\<lfloor>rnd * real (length ?u)\<rfloor>"
  have n: "0 < length ?u" using False by simp
  have i: "0 \<le> ?i \<and> ?i < int (length ?u)" using random_index_in_range [OF r n] .
  then have "findUnoccupiedLilyPad s rnd = Some (?u ! nat ?i)"
    using False by (simp add: findUnoccupiedLilyPad_def unoccupied_def [abs_def] nth_opt_def Let_def)
  moreover have "nat ?i < length ?u" using i by linarith
  then have "?u ! nat ?i \<in> set ?u" by (rule nth_mem)
  ultimately show ?thesis by auto
qed

lemma map_of_registerPlayer:
  "map_of (players (registerPlayer sid p s)) sid = Some (nextAddr s)"
  "heap (registerPlayer sid p s) (nextAddr s) = p"
  by (simp_all add: registerPlayer_def AList.update_conv')

text \<open>
  C10. In every reachable state a \<open>respawn\<close> succeeds, whoever sends it: it registers a
  newly created player with the level-1 defaults on the pad picked by
  \<open>findUnoccupiedLilyPad\<close> (a pad no registered player stands on, or the first pad when
  there is none), and the name is \<open>Anonymous\<close> when the connection has neither a
  registered player nor a stored name.
\<close>

theorem respawn_never_fails:
  assumes "reachable s" and "0 \<le> rnd" and "rnd < 1"
  shows "\<exists>s' pad. step (Respawn sid rnd) s = Inr s' \<and>
           map_of (players s') sid = Some (nextAddr s) \<and>
           pad \<in> set (lilyPads s) \<and>
           (unoccupied s pad \<or> (filter (unoccupied s) (lilyPads s) = [] \<and> pad = hd (lilyPads s))) \<and>
           p_x (heap s' (nextAddr s)) = pad_x pad \<and> p_y (heap s' (nextAddr s)) = pad_y pad \<and>
           p_id (heap s' (nextAddr s)) = sid \<and>
           p_size (heap s' (nextAddr s)) = 0.7 \<and>
           health (heap s' (nextAddr s)) = 50 \<and> maxHealth (heap s' (nextAddr s)) = 50 \<and>
           p_level (heap s' (nextAddr s)) = 1 \<and> p_xp (heap s' (nextAddr s)) = 0 \<and>
           \<not> isSwimming (heap s' (nextAddr s)) \<and>
           p_name (heap s' (nextAddr s)) = respawnName s sid \<and>
           (map_of (players s) sid = None \<and> playerNames s sid = None
              \<longrightarrow> p_name (heap s' (nextAddr s)) = ''Anonymous'')"
proof -
  have "invariant s" using assms(1) by (rule reachable_invariant)
  then have ne: "lilyPads s \<noteq> []" by (simp add: invariant_def)
  obtain pad where pad: "findUnoccupiedLilyPad s rnd = Some pad" "pad \<in> set (lilyPads s)"
      "unoccupied s pad \<or> (filter (unoccupied s) (lilyPads s) = [] \<and> pad = hd (lilyPads s))"
    using findUnoccupiedLilyPad_Some [OF ne assms(2,3)] by blast
  have an: "map_of (players s) sid = None \<and> playerNames s sid = None
              \<longrightarrow> respawnName s sid = ''Anonymous''"
    by (simp add: respawnName_def truthy_def)
  show ?thesis
    using pad an
    by (intro exI [of _ "projr (step (Respawn sid rnd) s)"] exI [of _ pad])
       (simp add: respawn_def Let_def map_of_registerPlayer freshPlayer_def)
qed

theorem respawn_never_fails_witness:
  "reachable demoInit \<and> (0::real) \<le> 0 \<and> (0::real) < 1 \<and>
   map_of (players demoInit) ''s7'' = None \<and> playerNames demoInit ''s7'' = None \<and>
   (\<exists>s'. step (Respawn ''s7'' 0) demoInit = Inr s' \<and>
         map_of (players s') ''s7'' = Some 0 \<and>
         p_name (heap s' 0) = ''Anonymous'' \<and> health (heap s' 0) = 50 \<and>
         maxHealth (heap s' 0) = 50 \<and> p_level (heap s' 0) = 1 \<and> p_xp (heap s' 0) = 0)"
proof -
  have a: "map_of (players demoInit) ''s7'' = None \<and> playerNames demoInit ''s7'' = None"
    "nextAddr demoInit = 0"
    by (simp_all add: eval_defs)
  show ?thesis
    using respawn_never_fails [OF demoInit_reachable, of 0 "''s7''"] a demoInit_reachable
    by auto
qed

lemma disconnect_registered:
  assumes "map_of (players s) sid = Some a" and "socketPlayerName s sid = Some n" and "n \<noteq> []"
  shows "\<exists>s'. step (Disconnect sid) s = Inr s' \<and> map_of (players s') sid = None \<and>
           n \<notin> takenUsernames s' \<and> playerNames s' sid = None \<and>
           outbox s' = outbox s @ [(Everyone, PlayerDisconnected sid)]"
  using assms by (simp add: disconnect_def Let_def truthy_def AList.delete_conv')

text \<open>
  C2 fails on the code when the player died before the connection closes. Player \<open>A\<close>
  (connection \<open>s1\<close>) is hit five times by \<open>B\<close> and is removed from the registry; the
  \<open>disconnect\<close> of \<open>s1\<close> then changes nothing: nothing is broadcast, the name \<open>A\<close>
  stays reserved, and a later join under the name \<open>A\<close> is turned away.
\<close>

theorem disconnect_after_death_keeps_name:
  "run [TongueAttack ''s2'' ''s1'' 1700000000000, TongueAttack ''s2'' ''s1'' 1700000000500,
        TongueAttack ''s2'' ''s1'' 1700000001000, TongueAttack ''s2'' ''s1'' 1700000001500,
        TongueAttack ''s2'' ''s1'' 1700000002000] arena = Inr deadA \<and>
   socketPlayerName deadA ''s1'' = Some ''A'' \<and>
   map_of (players deadA) ''s1'' = None \<and>
   step (Disconnect ''s1'') deadA = Inr deadA \<and>
   ''A'' \<in> takenUsernames deadA \<and>
   step (NewPlayer ''s9'' ''A'' 0) deadA = Inr (emit (Only ''s9'') ForceDisconnect deadA)"
  unfolding deadA_def arena_def by (simp add: eval_defs)







lemma pushStep_eq:
  "pushStep sid a pad t e s =
     (if pushable sid (p_size (heap s a)) pad t (fst e) (heap s (snd e))
      then s\<lparr>heap := (heap s)(snd e := (heap s (snd e))\<lparr>isSwimming := True, lastPushTime := t\<rparr>),
             timers := timers s @ [(t + 1000, snd e, fst e)],
             outbox := outbox s @
               [(Everyone, PlayerPushed (fst e) sid (p_x (heap s (snd e))) (p_y (heap s (snd e))))]\<rparr>
      else s)"
  by (simp add: pushStep_def pushable_def Let_def emit_def)

lemma pushStep_other: "c \<noteq> snd e \<Longrightarrow> heap (pushStep sid a pad t e s) c = heap s c"
  by (simp add: pushStep_eq)

lemma fold_pushStep_other:
  "c \<notin> snd ` set es \<Longrightarrow> heap (fold (pushStep sid a pad t) es s) c = heap s c"
  by (induction es arbitrary: s) (simp_all add: pushStep_other)

lemma pushStep_timers: "set (timers s) \<subseteq> set (timers (pushStep sid a pad t e s))"
  by (auto simp: pushStep_eq)

lemma fold_pushStep_timers: "set (timers s) \<subseteq> set (timers (fold (pushStep sid a pad t) es s))"
proof (induction es arbitrary: s)
  case Nil
  show ?case by simp
next
  case (Cons e es)
  have "set (timers s) \<subseteq> set (timers (pushStep sid a pad t e s))" by (rule pushStep_timers)
  also have "\<dots> \<subseteq> set (timers (fold (pushStep sid a pad t) es (pushStep sid a pad t e s)))"
    by (rule Cons.IH)
  finally show ?case by simp
qed

lemma pushStep_size: "p_size (heap (pushStep sid a pad t e s) c) = p_size (heap s c)"
  using unswim_eq_fields(5) [OF pushStep_heap] .

lemma fold_pushStep_cell:
  assumes "distinct (map snd es)" and "(oid, b) \<in> set es"
  shows "heap (fold (pushStep sid a pad t) es s) b =
           (if pushable sid (p_size (heap s a)) pad t oid (heap s b)
            then (heap s b)\<lparr>isSwimming := True, lastPushTime := t\<rparr> else heap s b) \<and>
         (pushable sid (p_size (heap s a)) pad t oid (heap s b)
            \<longrightarrow> (t + 1000, b, oid) \<in> set (timers (fold (pushStep sid a pad t) es s)))"
  using assms
proof (induction es arbitrary: s)
  case Nil
  then show ?case by simp
next
  case (Cons e es)
  let ?s1 = "pushStep sid a pad t e s"
  show ?case
  proof (cases "e = (oid, b)")
    case True
    have nb: "b \<notin> snd ` set es" using Cons.prems(1) True by auto
    have h: "heap (fold (pushStep sid a pad t) es ?s1) b = heap ?s1 b"
      using fold_pushStep_other [OF nb] .
    have tm: "set (timers ?s1) \<subseteq> set (timers (fold (pushStep sid a pad t) es ?s1))"
      by (rule fold_pushStep_timers)
    have c: "heap ?s1 b = (if pushable sid (p_size (heap s a)) pad t oid (heap s b)
            then (heap s b)\<lparr>isSwimming := True, lastPushTime := t\<rparr> else heap s b)"
      using True by (simp add: pushStep_eq)
    have "pushable sid (p_size (heap s a)) pad t oid (heap s b)
            \<longrightarrow> (t + 1000, b, oid) \<in> set (timers ?s1)"
      using True by (simp add: pushStep_eq)
    then show ?thesis using h c tm by auto
  next
    case False
    then have mem: "(oid, b) \<in> set es" using Cons.prems(2) by simp
    have d: "distinct (map snd es)" using Cons.prems(1) by simp
    have "snd e \<noteq> b" using Cons.prems(1) mem by (auto simp: image_iff)
    then have hb: "heap ?s1 b = heap s b" by (simp add: pushStep_other)
    have sz: "p_size (heap ?s1 a) = p_size (heap s a)" by (rule pushStep_size)
    show ?thesis using Cons.IH [OF d mem, of ?s1] hb sz by simp
  qed
qed

lemma timersOK_irrelevant [simp]:
  "timersOK (s\<lparr>takenUsernames := tu\<rparr>) = timersOK s"
  "timersOK (s\<lparr>playerNames := pn\<rparr>) = timersOK s"
  "timersOK (s\<lparr>socketPlayerName := sn\<rparr>) = timersOK s"
  "timersOK (s\<lparr>lastAttackTime := la\<rparr>) = timersOK s"
  "timersOK (s\<lparr>players := ps\<rparr>) = timersOK s"
  "timersOK (s\<lparr>outbox := ob\<rparr>) = timersOK s"
  "timersOK (s\<lparr>flies := fl\<rparr>) = timersOK s"
  "timersOK (emit d m s) = timersOK s"
  by (simp_all add: timersOK_def emit_def)

lemma timersOK_cong:
  "timers s' = timers s \<Longrightarrow> heap s' = heap s \<Longrightarrow> nextAddr s' = nextAddr s \<Longrightarrow>
   timersOK s' = timersOK s"
  by (simp add: timersOK_def)

lemma timersOK_initialState: "timersOK (initialState placed fl)"
  by (simp add: timersOK_def initialState_def blankPlayer_def)

lemma timersOK_heap_same_swim:
  assumes "timersOK s"
    and "\<And>c. isSwimming (hp c) = isSwimming (heap s c)"
    and "\<And>c. lastPushTime (hp c) = lastPushTime (heap s c)"
  shows "timersOK (s\<lparr>heap := hp\<rparr>)"
  using assms by (simp add: timersOK_def)

lemma timersOK_registerPlayer:
  assumes "timersOK s" and "\<not> isSwimming p"
  shows "timersOK (registerPlayer sid p s)"
proof -
  have a: "\<forall>tm \<in> set (timers s). fst (snd tm) \<noteq> nextAddr s"
    using assms(1) by (auto simp: timersOK_def)
  show ?thesis
    using assms a by (auto simp: timersOK_def registerPlayer_def less_Suc_eq)
qed

lemma timersOK_newPlayer:
  assumes "timersOK s" and "newPlayer sid nm rnd s = Inr s'"
  shows "timersOK s'"
proof (cases "length nm > 16 \<or> nm \<in> takenUsernames s")
  case True
  then show ?thesis using assms by (auto simp: newPlayer_def)
next
  case False
  let ?s1 = "s\<lparr>takenUsernames := insert nm (takenUsernames s),
                socketPlayerName := (socketPlayerName s)(sid \<mapsto> nm)\<rparr>"
  obtain pad where pad: "findUnoccupiedLilyPad ?s1 rnd = Some pad"
    using assms(2) False by (auto simp: newPlayer_def Let_def split: option.splits)
  have "timersOK (registerPlayer sid (freshPlayer sid nm pad)
                    (?s1\<lparr>playerNames := (playerNames ?s1)(sid \<mapsto> nm)\<rparr>))"
    using assms(1) by (intro timersOK_registerPlayer) (simp_all add: freshPlayer_def)
  then show ?thesis
    using assms(2) False pad by (auto simp: newPlayer_def Let_def)
qed

lemma timersOK_respawn:
  assumes "timersOK s" and "respawn sid rnd s = Inr s'"
  shows "timersOK s'"
proof -
  obtain pad where pad: "findUnoccupiedLilyPad s rnd = Some pad"
    using assms(2) by (auto simp: respawn_def split: option.splits)
  have "timersOK (registerPlayer sid (freshPlayer sid (respawnName s sid) pad) s)"
    using assms(1) by (intro timersOK_registerPlayer) (simp_all add: freshPlayer_def)
  then show ?thesis using assms(2) pad by (auto simp: respawn_def Let_def)
qed

lemma timersOK_pushStep:
  assumes "timersOK s" and "snd e < nextAddr s"
  shows "timersOK (pushStep sid a pad t e s)"
proof (cases "pushable sid (p_size (heap s a)) pad t (fst e) (heap s (snd e))")
  case False
  then show ?thesis using assms(1) by (simp add: pushStep_eq)
next
  case True
  then have ns: "\<not> isSwimming (heap s (snd e))" by (simp add: pushable_def)
  then have fresh: "\<forall>tm \<in> set (timers s). fst (snd tm) \<noteq> snd e"
    using assms(1) by (auto simp: timersOK_def)
  show ?thesis
    using True assms fresh by (auto simp: pushStep_eq timersOK_def)
qed

lemma timersOK_fold_pushStep:
  assumes "timersOK s" and "\<forall>e \<in> set es. snd e < nextAddr s"
  shows "timersOK (fold (pushStep sid a pad t) es s)"
  using assms
proof (induction es arbitrary: s)
  case Nil
  then show ?case by simp
next
  case (Cons e es)
  have "timersOK (pushStep sid a pad t e s)"
    using Cons.prems by (intro timersOK_pushStep) simp_all
  moreover have "\<forall>x \<in> set es. snd x < nextAddr (pushStep sid a pad t e s)"
    using Cons.prems(2) by (simp add: pushStep_frame)
  ultimately show ?case using Cons.IH by simp
qed

lemma timersOK_moveToLilyPad:
  assumes "timersOK s" and "invariant s" and "moveToLilyPad sid padId t s = Inr s'"
  shows "timersOK s'"
  using moveToLilyPad_cases [OF assms(3)]
proof (elim disjE exE conjE)
  assume "s' = s" then show ?thesis using assms(1) by simp
next
  fix a pad
  let ?s1 = "fold (pushStep sid a pad t) (players s) s"
  let ?p = "(heap ?s1 a)\<lparr>p_x := pad_x pad, p_y := pad_y pad, health := health (heap s a),
                          maxHealth := maxHealth (heap s a)\<rparr>"
  assume s': "s' = emit Everyone (PlayerHealthUpdate sid (health (heap s a)) (maxHealth (heap s a)))
              (emit Everyone (PlayerMoved sid (pad_x pad) (pad_y pad) (health (heap s a))
                                (maxHealth (heap s a)))
                (?s1\<lparr>heap := (heap ?s1)(a := ?p)\<rparr>))"
  have "\<forall>e \<in> set (players s). snd e < nextAddr s"
    using assms(2) by (simp add: invariant_def)
  then have "timersOK ?s1" using assms(1) by (intro timersOK_fold_pushStep)
  then have "timersOK (?s1\<lparr>heap := (heap ?s1)(a := ?p)\<rparr>)"
    by (rule timersOK_heap_same_swim) simp_all
  then show ?thesis unfolding s' by simp
qed

lemma set_splice1_distinct:
  assumes "distinct (map f xs)" and "k < length xs"
  shows "distinct (map f (splice1 k xs))"
    and "f ` set (splice1 k xs) = f ` set xs - {f (xs ! k)}"
    and "set (splice1 k xs) \<subseteq> set xs"
proof -
  have xs: "xs = take k xs @ xs ! k # drop (Suc k) xs"
    using assms(2) by (rule id_take_nth_drop)
  have d: "distinct (map f (take k xs @ xs ! k # drop (Suc k) xs))"
    using assms(1) xs by simp
  show "distinct (map f (splice1 k xs))"
    using d by (simp add: splice1_def)
  have "f ` set xs = f ` set (take k xs @ xs ! k # drop (Suc k) xs)"
    using xs by simp
  moreover have "f (xs ! k) \<notin> f ` set (take k xs)" "f (xs ! k) \<notin> f ` set (drop (Suc k) xs)"
    using d by auto
  ultimately show "f ` set (splice1 k xs) = f ` set xs - {f (xs ! k)}"
    apply (auto simp: splice1_def)
     apply (metis imageI)+
    done
  show "set (splice1 k xs) \<subseteq> set xs"
    by (auto simp: splice1_def dest: in_set_takeD in_set_dropD)
qed

lemma timersOK_swimTimeout:
  assumes ok: "timersOK s" and st: "swimTimeout k t s = Inr s'"
  shows "timersOK s'"
proof (cases "k < length (timers s) \<and> fst (timers s ! k) \<le> t")
  case False
  then have "s' = s" using st by (auto simp: swimTimeout_def)
  then show ?thesis using ok by simp
next
  case True
  let ?f = "\<lambda>tm. fst (snd tm)"
  let ?b = "?f (timers s ! k)"
  have k: "k < length (timers s)" using True by simp
  have mem: "timers s ! k \<in> set (timers s)" using k by simp
  have sw: "isSwimming (heap s ?b)" using ok mem by (auto simp: timersOK_def)
  have s': "s' = s\<lparr>timers := splice1 k (timers s),
                  heap := (heap s)(?b := (heap s ?b)\<lparr>isSwimming := False\<rparr>),
                  outbox := outbox s @ [(Everyone, PlayerCanMove (snd (snd (timers s ! k))))]\<rparr>"
    using st True sw by (simp add: swimTimeout_def Let_def emit_def)
  have d: "distinct (map ?f (timers s))" using ok by (simp add: timersOK_def)
  note sp = set_splice1_distinct [OF d k]
  have other: "\<forall>tm \<in> set (splice1 k (timers s)). ?f tm \<noteq> ?b"
    using sp(2) by auto
  have 1: "\<forall>tm \<in> set (splice1 k (timers s)). ?f tm < nextAddr s \<and>
             isSwimming (((heap s)(?b := (heap s ?b)\<lparr>isSwimming := False\<rparr>)) (?f tm)) \<and>
             fst tm = lastPushTime (((heap s)(?b := (heap s ?b)\<lparr>isSwimming := False\<rparr>)) (?f tm)) + 1000"
    using ok sp(3) other by (auto simp: timersOK_def)
  have 2: "\<forall>c. isSwimming (((heap s)(?b := (heap s ?b)\<lparr>isSwimming := False\<rparr>)) c)
             \<longrightarrow> c \<in> ?f ` set (splice1 k (timers s))"
    using ok sp(2) by (auto simp: timersOK_def)
  show ?thesis unfolding s' using sp(1) 1 2 by (simp add: timersOK_def)
qed

lemma timersOK_tongueAttack:
  assumes ok: "timersOK s" and st: "tongueAttack sid tid now s = Inr s'"
  shows "timersOK s'"
proof (cases "map_of (players s) sid = None \<or> map_of (players s) tid = None \<or>
   now - lastAttackOf s sid tid < 500")
  case True
  then have "s' = s" using st tongueAttack_noop [of s sid tid now] by simp
  then show ?thesis using ok by simp
next
  case False
  then obtain a t where a: "map_of (players s) sid = Some a" and t: "map_of (players s) tid = Some t"
    and cd: "\<not> now - lastAttackOf s sid tid < 500" by auto
  let ?hp = "(heap s)(t := (heap s t)\<lparr>health := max 0 (health (heap s t) - 10)\<rparr>)"
  have "timersOK (s\<lparr>heap := ?hp\<rparr>)"
    by (rule timersOK_heap_same_swim [OF ok]) simp_all
  moreover have "timers s' = timers s \<and> heap s' = ?hp \<and> nextAddr s' = nextAddr s"
    using tongueAttack_applied [OF a t cd] by (simp add: st split: if_splits)
  then have "timersOK s' = timersOK (s\<lparr>heap := ?hp\<rparr>)"
    by (intro timersOK_cong) simp_all
  ultimately show ?thesis by simp
qed

lemma caught_swim: "isSwimming (caught p) = isSwimming p" "lastPushTime (caught p) = lastPushTime p"
  by (simp_all add: caught_def)

lemma timersOK_catchFly:
  assumes ok: "timersOK s" and st: "catchFly sid flyId newFly s = Inr s'"
  shows "timersOK s'"
proof (cases "map_of (players s) sid = None \<or> findIndex (\<lambda>f. fly_id f = flyId) (flies s) = None")
  case True
  then have "s' = s" using st catchFly_noop [of s sid flyId newFly] by simp
  then show ?thesis using ok by simp
next
  case False
  then obtain a i where a: "map_of (players s) sid = Some a"
    and i: "findIndex (\<lambda>f. fly_id f = flyId) (flies s) = Some i" by auto
  have "timersOK (s\<lparr>heap := (heap s)(a := caught (heap s a))\<rparr>)"
    by (rule timersOK_heap_same_swim [OF ok]) (simp_all add: caught_swim)
  moreover have "s' = s\<lparr>flies := splice1 i (flies s) @ [newFly],
            heap := (heap s)(a := caught (heap s a)),
            outbox := outbox s @
              [(Everyone, FlyCaught flyId sid (p_size (caught (heap s a))) (health (caught (heap s a)))
                   (maxHealth (caught (heap s a))) (p_level (caught (heap s a)))
                   (p_xp (caught (heap s a))) (getLevelFromXP (p_xp (heap s a) + 1) > p_level (heap s a))),
               (Everyone, NewFly newFly)]\<rparr>"
    using catchFly_applied [OF a i, of newFly] by (simp add: st)
  ultimately show ?thesis by (simp add: timersOK_def)
qed

lemma timersOK_disconnect:
  assumes ok: "timersOK s" and st: "disconnect sid s = Inr s'"
  shows "timersOK s'"
proof (cases "map_of (players s) sid = None")
  case True
  then have "s' = s" using st by (simp add: disconnect_def)
  then show ?thesis using ok by simp
next
  case False
  then show ?thesis
    using st ok by (auto simp: disconnect_def Let_def split: option.splits)
qed

lemma timersOK_step:
  assumes "timersOK s" and "invariant s" and "step e s = Inr s'"
  shows "timersOK s'"
proof (cases e)
  case (CheckName sid nm)
  then show ?thesis using assms by (auto simp: checkName_def)
qed (use assms in \<open>auto intro: timersOK_newPlayer timersOK_respawn timersOK_moveToLilyPad
       timersOK_tongueAttack timersOK_catchFly timersOK_disconnect timersOK_swimTimeout\<close>)

lemma reachable_timersOK: "reachable s \<Longrightarrow> timersOK s"
proof (induction rule: reachable.induct)
  case (reach_init fl placed)
  show ?case by (rule timersOK_initialState)
next
  case (reach_step s e s')
  then show ?case using timersOK_step reachable_invariant by blast
qed

lemma swimming_iff_timer_pending:
  assumes "reachable s"
  shows "isSwimming (heap s c) \<longleftrightarrow> (\<exists>i. (lastPushTime (heap s c) + 1000, c, i) \<in> set (timers s))"
proof
  assume "isSwimming (heap s c)"
  then have "c \<in> (\<lambda>tm. fst (snd tm)) ` set (timers s)"
    using reachable_timersOK [OF assms] by (simp add: timersOK_def)
  then obtain tm where tm: "tm \<in> set (timers s)" "fst (snd tm) = c" by auto
  then have "fst tm = lastPushTime (heap s c) + 1000"
    using reachable_timersOK [OF assms] by (auto simp: timersOK_def)
  then have "tm = (lastPushTime (heap s c) + 1000, c, snd (snd tm))"
    using tm(2) by (cases tm) auto
  then show "\<exists>i. (lastPushTime (heap s c) + 1000, c, i) \<in> set (timers s)"
    using tm(1) by metis
next
  assume "\<exists>i. (lastPushTime (heap s c) + 1000, c, i) \<in> set (timers s)"
  then show "isSwimming (heap s c)"
    using reachable_timersOK [OF assms] by (fastforce simp: timersOK_def)
qed

lemma moveToLilyPad_success:
  assumes "map_of (players s) sid = Some a" and "\<not> isSwimming (heap s a)"
    and "find (\<lambda>pad. pad_id pad = padId) (lilyPads s) = Some pad"
  shows "moveToLilyPad sid padId t s =
     Inr (emit Everyone (PlayerHealthUpdate sid (health (heap s a)) (maxHealth (heap s a)))
            (emit Everyone (PlayerMoved sid (pad_x pad) (pad_y pad) (health (heap s a))
                              (maxHealth (heap s a)))
              ((fold (pushStep sid a pad t) (players s) s)
                 \<lparr>heap := (heap (fold (pushStep sid a pad t) (players s) s))
                    (a := (heap (fold (pushStep sid a pad t) (players s) s) a)
                       \<lparr>p_x := pad_x pad, p_y := pad_y pad, health := health (heap s a),
                        maxHealth := maxHealth (heap s a)\<rparr>)\<rparr>)))"
  using assms by (simp add: moveToLilyPad_def Let_def)

lemma moveToLilyPad_swimming:
  "map_of (players s) sid = Some a \<Longrightarrow> isSwimming (heap s a) \<Longrightarrow>
   moveToLilyPad sid padId t s = Inr s"
  by (simp add: moveToLilyPad_def)

lemma swimTimeout_not_due:
  "k < length (timers s) \<Longrightarrow> t < fst (timers s ! k) \<Longrightarrow> swimTimeout k t s = Inr s"
  by (simp add: swimTimeout_def)

lemma swimTimeout_fires:
  assumes "k < length (timers s)" and "timers s ! k = (d, b, oid)" and "d \<le> t"
    and "isSwimming (heap s b)"
  shows "swimTimeout k t s =
     Inr (s\<lparr>timers := splice1 k (timers s),
            heap := (heap s)(b := (heap s b)\<lparr>isSwimming := False\<rparr>),
            outbox := outbox s @ [(Everyone, PlayerCanMove oid)]\<rparr>)"
  using assms by (simp add: swimTimeout_def Let_def emit_def)

lemma step_lilyPads: "step e s = Inr s' \<Longrightarrow> lilyPads s' = lilyPads s"
proof (cases e)
  case (CheckName c nm)
  assume "step e s = Inr s'"
  then show ?thesis using CheckName by (auto simp: checkName_def)
next
  case (NewPlayer c nm rnd)
  assume "step e s = Inr s'"
  then show ?thesis using NewPlayer
    by (auto simp: newPlayer_def Let_def registerPlayer_def split: if_splits option.splits)
next
  case (Respawn c rnd)
  assume "step e s = Inr s'"
  then show ?thesis using Respawn
    by (auto simp: respawn_def Let_def registerPlayer_def split: option.splits)
next
  case (MoveToLilyPad c padId t)
  assume "step e s = Inr s'"
  then have "moveToLilyPad c padId t s = Inr s'" using MoveToLilyPad by simp
  from moveToLilyPad_cases [OF this] show ?thesis
    using fold_pushStep_frame by (elim disjE exE conjE) simp_all
next
  case (TongueAttack c tid n)
  assume "step e s = Inr s'"
  then have st: "tongueAttack c tid n s = Inr s'" using TongueAttack by simp
  show ?thesis
  proof (cases "map_of (players s) c = None \<or> map_of (players s) tid = None \<or>
     n - lastAttackOf s c tid < 500")
    case True
    then show ?thesis using st tongueAttack_noop [of s c tid n] by simp
  next
    case False
    then obtain a t where "map_of (players s) c = Some a" "map_of (players s) tid = Some t"
      "\<not> n - lastAttackOf s c tid < 500" by auto
    from tongueAttack_applied [OF this] show ?thesis by (simp add: st split: if_splits)
  qed
next
  case (CatchFly c flyId newFly)
  assume "step e s = Inr s'"
  then have st: "catchFly c flyId newFly s = Inr s'" using CatchFly by simp
  show ?thesis
  proof (cases "map_of (players s) c = None \<or> findIndex (\<lambda>f. fly_id f = flyId) (flies s) = None")
    case True
    then show ?thesis using st catchFly_noop [of s c flyId newFly] by simp
  next
    case False
    then obtain a i where "map_of (players s) c = Some a"
      "findIndex (\<lambda>f. fly_id f = flyId) (flies s) = Some i" by auto
    from catchFly_applied [OF this, of newFly] show ?thesis using st by auto
  qed
next
  case (Disconnect c)
  assume "step e s = Inr s'"
  then show ?thesis using Disconnect
    by (auto simp: disconnect_def Let_def split: if_splits option.splits)
next
  case (SwimTimeout k t)
  assume "step e s = Inr s'"
  then show ?thesis using SwimTimeout
    by (auto simp: swimTimeout_def Let_def split: if_splits)
qed

lemma run_lilyPads: "run es s = Inr s' \<Longrightarrow> lilyPads s' = lilyPads s"
proof (induction es arbitrary: s)
  case Nil
  then show ?case by simp
next
  case (Cons e es)
  then obtain s1 where "step e s = Inr s1" "run es s1 = Inr s'"
    by (auto split: sum.splits)
  then show ?case using Cons.IH step_lilyPads by metis
qed

lemma pushStep_swim_kept:
  assumes "isSwimming (heap s b) \<or> t - lastPushTime (heap s b) \<le> 2000"
  shows "heap (pushStep sid a pad t e s) b = heap s b"
proof (cases "snd e = b")
  case True
  then have "\<not> pushable sid (p_size (heap s a)) pad t (fst e) (heap s (snd e))"
    using assms by (auto simp: pushable_def)
  then show ?thesis by (simp add: pushStep_eq)
next
  case False
  then show ?thesis by (simp add: pushStep_other)
qed

lemma fold_pushStep_swim_kept:
  assumes "isSwimming (heap s b) \<or> t - lastPushTime (heap s b) \<le> 2000"
  shows "heap (fold (pushStep sid a pad t) es s) b = heap s b"
  using assms
proof (induction es arbitrary: s)
  case Nil
  show ?case by simp
next
  case (Cons e es)
  have k: "heap (pushStep sid a pad t e s) b = heap s b"
    using Cons.prems by (rule pushStep_swim_kept)
  then have "isSwimming (heap (pushStep sid a pad t e s) b) \<or>
             t - lastPushTime (heap (pushStep sid a pad t e s) b) \<le> 2000"
    using Cons.prems by simp
  from Cons.IH [OF this] show ?case using k by simp
qed

lemma moveToLilyPad_swim_kept:
  assumes st: "moveToLilyPad c padId t s = Inr s'"
    and b: "isSwimming (heap s b) \<or> t - lastPushTime (heap s b) \<le> 2000"
  shows "isSwimming (heap s' b) = isSwimming (heap s b) \<and>
         lastPushTime (heap s' b) = lastPushTime (heap s b)"
  using moveToLilyPad_cases [OF st]
proof (elim disjE exE conjE)
  assume "s' = s" then show ?thesis by simp
next
  fix a pad
  let ?s1 = "fold (pushStep c a pad t) (players s) s"
  assume s': "s' = emit Everyone (PlayerHealthUpdate c (health (heap s a)) (maxHealth (heap s a)))
              (emit Everyone (PlayerMoved c (pad_x pad) (pad_y pad) (health (heap s a))
                                (maxHealth (heap s a)))
                (?s1\<lparr>heap := (heap ?s1)
                      (a := (heap ?s1 a)
                         \<lparr>p_x := pad_x pad, p_y := pad_y pad, health := health (heap s a),
                          maxHealth := maxHealth (heap s a)\<rparr>)\<rparr>))"
  have "heap ?s1 b = heap s b" using b by (rule fold_pushStep_swim_kept)
  then show ?thesis unfolding s' by (cases "b = a") simp_all
qed

lemma pushStep_lastPush_mono:
  "lastPushTime (heap s b) \<le> lastPushTime (heap (pushStep sid a pad t e s) b)"
  by (simp add: pushStep_eq pushable_def)

lemma fold_pushStep_lastPush_mono:
  "lastPushTime (heap s b) \<le> lastPushTime (heap (fold (pushStep sid a pad t) es s) b)"
proof (induction es arbitrary: s)
  case Nil
  show ?case by simp
next
  case (Cons e es)
  have "lastPushTime (heap s b) \<le> lastPushTime (heap (pushStep sid a pad t e s) b)"
    by (rule pushStep_lastPush_mono)
  also have "\<dots> \<le> lastPushTime (heap (fold (pushStep sid a pad t) es (pushStep sid a pad t e s)) b)"
    by (rule Cons.IH)
  finally show ?case by simp
qed

lemma step_lastPush_mono:
  assumes "step e s = Inr s'" and "b < nextAddr s"
  shows "b < nextAddr s' \<and> lastPushTime (heap s b) \<le> lastPushTime (heap s' b)"
proof (cases e)
  case (CheckName c nm)
  then show ?thesis using assms by (auto simp: checkName_def)
next
  case (NewPlayer c nm rnd)
  then show ?thesis using assms
    by (auto simp: newPlayer_def Let_def registerPlayer_def split: if_splits option.splits)
next
  case (Respawn c rnd)
  then show ?thesis using assms
    by (auto simp: respawn_def Let_def registerPlayer_def split: option.splits)
next
  case (MoveToLilyPad c padId t)
  then have "moveToLilyPad c padId t s = Inr s'" using assms by simp
  from moveToLilyPad_cases [OF this] show ?thesis
  proof (elim disjE exE conjE)
    assume "s' = s" then show ?thesis using assms by simp
  next
    fix a pad
    let ?s1 = "fold (pushStep c a pad t) (players s) s"
    assume s': "s' = emit Everyone (PlayerHealthUpdate c (health (heap s a)) (maxHealth (heap s a)))
              (emit Everyone (PlayerMoved c (pad_x pad) (pad_y pad) (health (heap s a))
                                (maxHealth (heap s a)))
                (?s1\<lparr>heap := (heap ?s1)
                      (a := (heap ?s1 a)
                         \<lparr>p_x := pad_x pad, p_y := pad_y pad, health := health (heap s a),
                          maxHealth := maxHealth (heap s a)\<rparr>)\<rparr>))"
    have "lastPushTime (heap s b) \<le> lastPushTime (heap ?s1 b)"
      by (rule fold_pushStep_lastPush_mono)
    moreover have "nextAddr ?s1 = nextAddr s"
      using fold_pushStep_frame [of c a pad t "players s" s] by simp
    ultimately show ?thesis unfolding s' using assms(2) by (cases "b = a") simp_all
  qed
next
  case (TongueAttack c tid n)
  then have st: "tongueAttack c tid n s = Inr s'" using assms by simp
  show ?thesis
  proof (cases "map_of (players s) c = None \<or> map_of (players s) tid = None \<or>
     n - lastAttackOf s c tid < 500")
    case True
    then show ?thesis using st assms tongueAttack_noop [of s c tid n] by simp
  next
    case False
    then obtain a t where "map_of (players s) c = Some a" "map_of (players s) tid = Some t"
      "\<not> n - lastAttackOf s c tid < 500" by auto
    from tongueAttack_applied [OF this] show ?thesis
      using assms(2) by (simp add: st split: if_splits)
  qed
next
  case (CatchFly c flyId newFly)
  then have st: "catchFly c flyId newFly s = Inr s'" using assms by simp
  show ?thesis
  proof (cases "map_of (players s) c = None \<or> findIndex (\<lambda>f. fly_id f = flyId) (flies s) = None")
    case True
    then show ?thesis using st assms catchFly_noop [of s c flyId newFly] by simp
  next
    case False
    then obtain a i where "map_of (players s) c = Some a"
      "findIndex (\<lambda>f. fly_id f = flyId) (flies s) = Some i" by auto
    from catchFly_applied [OF this, of newFly] show ?thesis
      using st assms(2) by (auto simp: caught_swim)
  qed
next
  case (Disconnect c)
  then show ?thesis using assms
    by (auto simp: disconnect_def Let_def split: if_splits option.splits)
next
  case (SwimTimeout k t)
  then show ?thesis using assms
    by (auto simp: swimTimeout_def Let_def split: if_splits)
qed

lemma run_lastPush_mono:
  "run es s = Inr s' \<Longrightarrow> b < nextAddr s \<Longrightarrow>
   b < nextAddr s' \<and> lastPushTime (heap s b) \<le> lastPushTime (heap s' b)"
proof (induction es arbitrary: s)
  case Nil
  then show ?case by simp
next
  case (Cons e es)
  then obtain s1 where s1: "step e s = Inr s1" and r: "run es s1 = Inr s'"
    by (auto split: sum.splits)
  have a: "b < nextAddr s1 \<and> lastPushTime (heap s b) \<le> lastPushTime (heap s1 b)"
    using step_lastPush_mono [OF s1 Cons.prems(2)] .
  then have "b < nextAddr s' \<and> lastPushTime (heap s1 b) \<le> lastPushTime (heap s' b)"
    using Cons.IH [OF r] by simp
  with a show ?case by simp
qed


lemma swimming_allocated:
  assumes "reachable s" and "isSwimming (heap s b)"
  shows "b < nextAddr s"
proof -
  have "b \<in> (\<lambda>tm. fst (snd tm)) ` set (timers s)"
    using reachable_timersOK [OF assms(1)] assms(2) by (simp add: timersOK_def)
  then show ?thesis
    using reachable_timersOK [OF assms(1)] by (auto simp: timersOK_def)
qed

lemma step_stays_swimming:
  assumes r: "reachable s" and sw: "isSwimming (heap s b)"
    and lp: "now \<le> lastPushTime (heap s b)"
    and st: "step e s = Inr s'"
    and early: "\<forall>k t. e = SwimTimeout k t \<longrightarrow> t < now + 1000"
  shows "isSwimming (heap s' b)"
proof (cases e)
  case (CheckName c nm)
  then show ?thesis using st sw by (auto simp: checkName_def)
next
  case (NewPlayer c nm rnd)
  have "b \<noteq> nextAddr s" using swimming_allocated [OF r sw] by simp
  then show ?thesis using NewPlayer st sw
    by (auto simp: newPlayer_def Let_def registerPlayer_def split: if_splits option.splits)
next
  case (Respawn c rnd)
  have "b \<noteq> nextAddr s" using swimming_allocated [OF r sw] by simp
  then show ?thesis using Respawn st sw
    by (auto simp: respawn_def Let_def registerPlayer_def split: option.splits)
next
  case (MoveToLilyPad c padId t)
  then have "moveToLilyPad c padId t s = Inr s'" using st by simp
  then show ?thesis using moveToLilyPad_swim_kept [of c padId t s s' b] sw by simp
next
  case (TongueAttack c tid n)
  then have st': "tongueAttack c tid n s = Inr s'" using st by simp
  show ?thesis
  proof (cases "map_of (players s) c = None \<or> map_of (players s) tid = None \<or>
     n - lastAttackOf s c tid < 500")
    case True
    then show ?thesis using st' sw tongueAttack_noop [of s c tid n] by simp
  next
    case False
    then obtain a t where "map_of (players s) c = Some a" "map_of (players s) tid = Some t"
      "\<not> n - lastAttackOf s c tid < 500" by auto
    from tongueAttack_applied [OF this] show ?thesis
      using sw by (cases "b = t") (simp_all add: st' split: if_splits)
  qed
next
  case (CatchFly c flyId newFly)
  then have st': "catchFly c flyId newFly s = Inr s'" using st by simp
  show ?thesis
  proof (cases "map_of (players s) c = None \<or> findIndex (\<lambda>f. fly_id f = flyId) (flies s) = None")
    case True
    then show ?thesis using st' sw catchFly_noop [of s c flyId newFly] by simp
  next
    case False
    then obtain a i where "map_of (players s) c = Some a"
      "findIndex (\<lambda>f. fly_id f = flyId) (flies s) = Some i" by auto
    from catchFly_applied [OF this, of newFly] show ?thesis
      using st' sw by (auto simp: caught_swim)
  qed
next
  case (Disconnect c)
  then show ?thesis using st sw
    by (auto simp: disconnect_def Let_def split: if_splits option.splits)
next
  case (SwimTimeout k t)
  then have st': "swimTimeout k t s = Inr s'" using st by simp
  have t: "t < now + 1000" using early SwimTimeout by simp
  show ?thesis
  proof (cases "k < length (timers s) \<and> fst (timers s ! k) \<le> t")
    case False
    then have "s' = s" using st' by (auto simp: swimTimeout_def)
    then show ?thesis using sw by simp
  next
    case True
    then have mem: "timers s ! k \<in> set (timers s)" by simp
    have nb: "fst (snd (timers s ! k)) \<noteq> b"
    proof
      assume eq: "fst (snd (timers s ! k)) = b"
      have "fst (timers s ! k) = lastPushTime (heap s b) + 1000"
        using reachable_timersOK [OF r] mem eq by (auto simp: timersOK_def)
      then show False using True t lp by simp
    qed
    show ?thesis
      using st' True nb sw by (auto simp: swimTimeout_def Let_def split: if_splits)
  qed
qed

lemma run_stays_swimming:
  assumes "reachable s" and "isSwimming (heap s b)" and "now \<le> lastPushTime (heap s b)"
    and "run es s = Inr s'"
    and "\<forall>e \<in> set es. \<forall>k t. e = SwimTimeout k t \<longrightarrow> t < now + 1000"
  shows "isSwimming (heap s' b)"
  using assms
proof (induction es arbitrary: s)
  case Nil
  then show ?case by simp
next
  case (Cons e es)
  then obtain s1 where s1: "step e s = Inr s1" and run: "run es s1 = Inr s'"
    by (auto split: sum.splits)
  have r1: "reachable s1" using Cons.prems(1) s1 by (rule reachable.reach_step)
  have sw1: "isSwimming (heap s1 b)"
    using step_stays_swimming [OF Cons.prems(1,2,3) s1] Cons.prems(5) by simp
  have "b < nextAddr s" using swimming_allocated [OF Cons.prems(1,2)] .
  then have lp1: "now \<le> lastPushTime (heap s1 b)"
    using step_lastPush_mono [OF s1, of b] Cons.prems(3) by simp
  show ?case using Cons.IH [OF r1 sw1 lp1 run] Cons.prems(5) by simp
qed

lemma ex_Inr_elim: "\<exists>x. f = Inr x \<and> Q x \<Longrightarrow> f = Inr y \<Longrightarrow> Q y"
  by auto

lemma getLevelFromXP_small:
  "getLevelFromXP 1 = 1" "getLevelFromXP 2 = 1" "getLevelFromXP 3 = 1" "getLevelFromXP 4 = 1"
  "getLevelFromXP 5 = 2"
  by code_simp+

lemma bigA_run:
  "run [CatchFly ''s1'' ''f0'' (demoFly CHR ''a''), CatchFly ''s1'' ''f1'' (demoFly CHR ''b''),
        CatchFly ''s1'' ''f2'' (demoFly CHR ''c''), CatchFly ''s1'' ''f3'' (demoFly CHR ''d''),
        CatchFly ''s1'' ''f4'' (demoFly CHR ''e'')] arena = Inr bigA"
  unfolding bigA_def arena_def by (simp add: eval_defs getLevelFromXP_small)

lemma bigA_reachable: "reachable bigA"
  by (rule reachable_run [OF arena_reachable bigA_run])

lemma bigA_sel:
  "players bigA = [(''s1'', 0), (''s2'', 1), (''s3'', 2)]"
  "lilyPads bigA = centerPad # demoPads"
  "timers bigA = []"
  "nextAddr bigA = 3"
  "heap bigA 0 = \<lparr>p_id = ''s1'', p_name = ''A'', p_x = 1200, p_y = 900, p_size = 0.75,
                   health = 60, maxHealth = 60, isSwimming = False, lastPushTime = 0,
                   p_level = 2, p_xp = 5\<rparr>"
  "heap bigA (Suc 0) = \<lparr>p_id = ''s2'', p_name = ''B'', p_x = 400, p_y = 200, p_size = 0.7,
                   health = 50, maxHealth = 50, isSwimming = False, lastPushTime = 0,
                   p_level = 1, p_xp = 0\<rparr>"
  "heap bigA 2 = \<lparr>p_id = ''s3'', p_name = ''T'', p_x = 700, p_y = 200, p_size = 0.7,
                   health = 50, maxHealth = 50, isSwimming = False, lastPushTime = 0,
                   p_level = 1, p_xp = 0\<rparr>"
  "playerNames bigA ''s2'' = Some ''B''"
  unfolding bigA_def arena_def
  by (simp_all add: eval_defs getLevelFromXP_small getSizeForLevel_def)

lemmas pad_defs = centerPad_def demoPads_def worldWidth_def worldHeight_def

lemmas handler_defs = moveToLilyPad_def pushStep_def swimTimeout_def splice1_def respawn_def
  respawnName_def truthy_def registerPlayer_def freshPlayer_def findUnoccupiedLilyPad_def
  playerValues_def nth_opt_def emit_def Let_def

lemma moveToLilyPad_Inr:
  "moveToLilyPad c padId t s = Inr (projr (moveToLilyPad c padId t s))"
  by (simp add: moveToLilyPad_def Let_def split: option.splits)

lemma swimTimeout_Inr: "swimTimeout k t s = Inr (projr (swimTimeout k t s))"
  by (simp add: swimTimeout_def Let_def)

lemma pushedB_step:
  "step (MoveToLilyPad ''s1'' ''pad-0-1'' 1700000000000) bigA = Inr pushedB"
  unfolding pushedB_def step.simps by (rule moveToLilyPad_Inr)

lemma pushedB_sel:
  "players pushedB = [(''s1'', 0), (''s2'', 1), (''s3'', 2)]"
  "lilyPads pushedB = centerPad # demoPads"
  "timers pushedB = [(1700000001000, 1, ''s2'')]"
  "nextAddr pushedB = 3"
  "heap pushedB 0 = \<lparr>p_id = ''s1'', p_name = ''A'', p_x = 400, p_y = 200, p_size = 0.75,
                   health = 60, maxHealth = 60, isSwimming = False, lastPushTime = 0,
                   p_level = 2, p_xp = 5\<rparr>"
  "heap pushedB (Suc 0) = \<lparr>p_id = ''s2'', p_name = ''B'', p_x = 400, p_y = 200, p_size = 0.7,
                   health = 50, maxHealth = 50, isSwimming = True, lastPushTime = 1700000000000,
                   p_level = 1, p_xp = 0\<rparr>"
  "heap pushedB 2 = \<lparr>p_id = ''s3'', p_name = ''T'', p_x = 700, p_y = 200, p_size = 0.7,
                   health = 50, maxHealth = 50, isSwimming = False, lastPushTime = 0,
                   p_level = 1, p_xp = 0\<rparr>"
  "playerNames pushedB ''s2'' = Some ''B''"
  unfolding pushedB_def by (simp_all add: handler_defs pad_defs bigA_sel)

lemma recoveredB_step: "step (SwimTimeout 0 1700000001000) pushedB = Inr recoveredB"
  unfolding recoveredB_def step.simps by (rule swimTimeout_Inr)

lemma recoveredB_sel:
  "players recoveredB = [(''s1'', 0), (''s2'', 1), (''s3'', 2)]"
  "lilyPads recoveredB = centerPad # demoPads"
  "timers recoveredB = []"
  "heap recoveredB 0 = heap pushedB 0"
  "heap recoveredB (Suc 0) = \<lparr>p_id = ''s2'', p_name = ''B'', p_x = 400, p_y = 200, p_size = 0.7,
                   health = 50, maxHealth = 50, isSwimming = False, lastPushTime = 1700000000000,
                   p_level = 1, p_xp = 0\<rparr>"
  unfolding recoveredB_def by (simp_all add: handler_defs pushedB_sel)

lemma respawnedB_step: "step (Respawn ''s2'' 0) pushedB = Inr respawnedB"
  unfolding respawnedB_def by (simp add: handler_defs pad_defs pushedB_sel)

lemma respawnedB_sel:
  "players respawnedB = [(''s1'', 0), (''s2'', 3), (''s3'', 2)]"
  "lilyPads respawnedB = centerPad # demoPads"
  "heap respawnedB 0 = heap pushedB 0"
  "heap respawnedB 2 = heap pushedB 2"
  "heap respawnedB 3 = \<lparr>p_id = ''s2'', p_name = ''B'', p_x = 1200, p_y = 900, p_size = 0.7,
                   health = 50, maxHealth = 50, isSwimming = False, lastPushTime = 0,
                   p_level = 1, p_xp = 0\<rparr>"
  unfolding respawnedB_def by (simp_all add: handler_defs pad_defs pushedB_sel)

lemma movedB_step:
  "step (MoveToLilyPad ''s2'' ''pad-0-2'' 1700000000001) respawnedB = Inr movedB"
  unfolding movedB_def step.simps by (rule moveToLilyPad_Inr)

lemma movedB_sel:
  "players movedB = [(''s1'', 0), (''s2'', 3), (''s3'', 2)]"
  "lilyPads movedB = centerPad # demoPads"
  "heap movedB 0 = heap pushedB 0"
  "heap movedB 2 = heap pushedB 2"
  "heap movedB 3 = \<lparr>p_id = ''s2'', p_name = ''B'', p_x = 700, p_y = 200, p_size = 0.7,
                   health = 50, maxHealth = 50, isSwimming = False, lastPushTime = 0,
                   p_level = 1, p_xp = 0\<rparr>"
  unfolding movedB_def by (simp_all add: handler_defs pad_defs respawnedB_sel pushedB_sel)

lemma pushedAgain_step:
  "step (MoveToLilyPad ''s1'' ''pad-0-2'' 1700000000002) movedB = Inr pushedAgain"
  unfolding pushedAgain_def step.simps by (rule moveToLilyPad_Inr)

lemma pushedAgain_sel:
  "players pushedAgain = [(''s1'', 0), (''s2'', 3), (''s3'', 2)]"
  "heap pushedAgain 3 = \<lparr>p_id = ''s2'', p_name = ''B'', p_x = 700, p_y = 200, p_size = 0.7,
                   health = 50, maxHealth = 50, isSwimming = True, lastPushTime = 1700000000002,
                   p_level = 1, p_xp = 0\<rparr>"
  unfolding pushedAgain_def by (simp_all add: handler_defs pad_defs movedB_sel pushedB_sel)

lemma pushedB_reachable: "reachable pushedB"
  by (rule reachable.reach_step [OF bigA_reachable pushedB_step])

text \<open>
  C7, as stated, fails. The swimming flag and the push stamp are fields of the player
  object, and \<open>respawn\<close> replaces the object whatever its state: \<open>B\<close> is pushed, sends
  \<open>respawn\<close>, moves one millisecond after the push, and is pushed a second time two
  milliseconds after the first push.
\<close>

theorem swim_ends_on_respawn_counterexample:
  "step (MoveToLilyPad ''s1'' ''pad-0-1'' 1700000000000) bigA = Inr pushedB \<and>
   map_of (players pushedB) ''s2'' = Some 1 \<and>
   isSwimming (heap pushedB 1) \<and> lastPushTime (heap pushedB 1) = 1700000000000 \<and>
   step (Respawn ''s2'' 0) pushedB = Inr respawnedB \<and>
   map_of (players respawnedB) ''s2'' = Some 3 \<and>
   \<not> isSwimming (heap respawnedB 3) \<and> p_x (heap respawnedB 3) = 1200 \<and>
   step (MoveToLilyPad ''s2'' ''pad-0-2'' 1700000000001) respawnedB = Inr movedB \<and>
   map_of (players movedB) ''s2'' = Some 3 \<and>
   p_x (heap movedB 3) = 700 \<and> p_y (heap movedB 3) = 200 \<and>
   step (MoveToLilyPad ''s1'' ''pad-0-2'' 1700000000002) movedB = Inr pushedAgain \<and>
   map_of (players pushedAgain) ''s2'' = Some 3 \<and>
   isSwimming (heap pushedAgain 3) \<and> lastPushTime (heap pushedAgain 3) = 1700000000002"
  using pushedB_step respawnedB_step movedB_step pushedAgain_step
  by (simp add: pushedB_sel respawnedB_sel movedB_sel pushedAgain_sel)

text \<open>
  C7, amended. A mover that is registered and not swimming moves to an existing pad, on
  which another registered player \<open>oid\<close> of strictly smaller size stands, as the object
  \<open>b\<close>. If \<open>b\<close> was pushed at most 2000 ms ago, or swims already, the move leaves it as
  it is. Otherwise the move sets it swimming, stamps the push time and schedules its
  recovery 1000 ms later, and from then on, whatever the server handles next:
  \<^item> \<open>b\<close> swims exactly while its recovery timer is pending, and it still swims as long
    as every timer event so far came earlier than 1000 ms after the push;
  \<^item> while \<open>b\<close> swims and is still the registered player of \<open>oid\<close>, every move of
    \<open>oid\<close> is ignored;
  \<^item> the recovery timer, once due, ends the swimming and broadcasts \<open>playerCanMove\<close>;
  \<^item> when \<open>b\<close> has stopped swimming and is still the registered player of \<open>oid\<close>, a
    move of \<open>oid\<close> to an existing pad succeeds;
  \<^item> no move made within 2000 ms of the push pushes \<open>b\<close> again.
  A respawn registers a new object, about which none of this is said, and a player removed
  from the registry cannot move at all.
\<close>

theorem push_smaller_occupant:
  assumes "reachable s"
    and "map_of (players s) sid = Some a" and "\<not> isSwimming (heap s a)"
    and "find (\<lambda>pad. pad_id pad = padId) (lilyPads s) = Some pad"
    and "map_of (players s) oid = Some b" and "oid \<noteq> sid"
    and "p_x (heap s b) = pad_x pad" and "p_y (heap s b) = pad_y pad"
    and "p_size (heap s b) < p_size (heap s a)"
  shows "\<exists>s'. step (MoveToLilyPad sid padId now) s = Inr s' \<and>
           map_of (players s') oid = Some b \<and>
           (now - lastPushTime (heap s b) \<le> 2000 \<or> isSwimming (heap s b)
              \<longrightarrow> heap s' b = heap s b) \<and>
           (2000 < now - lastPushTime (heap s b) \<and> \<not> isSwimming (heap s b) \<longrightarrow>
              isSwimming (heap s' b) \<and> lastPushTime (heap s' b) = now \<and>
              (\<exists>k < length (timers s'). timers s' ! k = (now + 1000, b, oid)) \<and>
              (\<forall>es s2. run es s' = Inr s2 \<longrightarrow>
                 now \<le> lastPushTime (heap s2 b) \<and>
                 (isSwimming (heap s2 b) \<longleftrightarrow>
                    (\<exists>i. (lastPushTime (heap s2 b) + 1000, b, i) \<in> set (timers s2))) \<and>
                 ((\<forall>e \<in> set es. \<forall>k t. e = SwimTimeout k t \<longrightarrow> t < now + 1000)
                    \<longrightarrow> isSwimming (heap s2 b)) \<and>
                 (map_of (players s2) oid = Some b \<and> isSwimming (heap s2 b) \<longrightarrow>
                    (\<forall>pid t. step (MoveToLilyPad oid pid t) s2 = Inr s2)) \<and>
                 (\<forall>k d i t. k < length (timers s2) \<and> timers s2 ! k = (d, b, i) \<and> d \<le> t \<longrightarrow>
                    (\<exists>s3. step (SwimTimeout k t) s2 = Inr s3 \<and> \<not> isSwimming (heap s3 b) \<and>
                          outbox s3 = outbox s2 @ [(Everyone, PlayerCanMove i)])) \<and>
                 (map_of (players s2) oid = Some b \<and> \<not> isSwimming (heap s2 b) \<longrightarrow>
                    (\<forall>pid pad2 t2. find (\<lambda>q. pad_id q = pid) (lilyPads s) = Some pad2 \<longrightarrow>
                       (\<exists>s3. step (MoveToLilyPad oid pid t2) s2 = Inr s3 \<and>
                             p_x (heap s3 b) = pad_x pad2 \<and> p_y (heap s3 b) = pad_y pad2))) \<and>
                 (\<forall>c pid t2 s3. t2 - now \<le> 2000 \<and> step (MoveToLilyPad c pid t2) s2 = Inr s3 \<longrightarrow>
                    isSwimming (heap s3 b) = isSwimming (heap s2 b) \<and>
                    lastPushTime (heap s3 b) = lastPushTime (heap s2 b))))"
proof -
  let ?s1 = "fold (pushStep sid a pad now) (players s) s"
  let ?p = "(heap ?s1 a)\<lparr>p_x := pad_x pad, p_y := pad_y pad, health := health (heap s a),
                          maxHealth := maxHealth (heap s a)\<rparr>"
  define s' where "s' = emit Everyone (PlayerHealthUpdate sid (health (heap s a)) (maxHealth (heap s a)))
            (emit Everyone (PlayerMoved sid (pad_x pad) (pad_y pad) (health (heap s a))
                              (maxHealth (heap s a)))
              (?s1\<lparr>heap := (heap ?s1)(a := ?p)\<rparr>))"
  have st: "step (MoveToLilyPad sid padId now) s = Inr s'"
    unfolding s'_def using moveToLilyPad_success [OF assms(2,3,4)] by simp
  have r': "reachable s'" using assms(1) st by (rule reachable.reach_step)
  have inv: "invariant s" using assms(1) by (rule reachable_invariant)
  have d: "distinct (map snd (players s))" using inv by (simp add: invariant_def)
  have ain: "(sid, a) \<in> set (players s)" using assms(2) by (rule map_of_SomeD)
  have bin: "(oid, b) \<in> set (players s)" using assms(5) by (rule map_of_SomeD)
  have ab: "a \<noteq> b"
  proof
    assume "a = b"
    have "inj_on snd (set (players s))" using d by (simp add: distinct_map)
    moreover have "snd (sid, a) = snd (oid, b)" using \<open>a = b\<close> by simp
    ultimately have "(sid, a) = (oid, b)" using ain bin by (rule inj_onD)
    then show False using assms(6) by simp
  qed
  have pl: "players s' = players s"
    unfolding s'_def using fold_pushStep_frame [of sid a pad now "players s" s] by simp
  have lp: "lilyPads s' = lilyPads s"
    unfolding s'_def using fold_pushStep_frame [of sid a pad now "players s" s] by simp
  have hb: "heap s' b = heap ?s1 b" unfolding s'_def using ab by simp
  have tm: "timers s' = timers ?s1" unfolding s'_def by simp
  note cell = fold_pushStep_cell [OF d bin, of sid a pad now s]
  have mo: "map_of (players s') oid = Some b" using pl assms(5) by simp
  have supp: "now - lastPushTime (heap s b) \<le> 2000 \<or> isSwimming (heap s b)
                \<longrightarrow> heap s' b = heap s b"
    using cell hb by (auto simp: pushable_def)
  have push: "isSwimming (heap s' b) \<and> lastPushTime (heap s' b) = now \<and>
              (\<exists>k < length (timers s'). timers s' ! k = (now + 1000, b, oid)) \<and>
              (\<forall>es s2. run es s' = Inr s2 \<longrightarrow>
                 now \<le> lastPushTime (heap s2 b) \<and>
                 (isSwimming (heap s2 b) \<longleftrightarrow>
                    (\<exists>i. (lastPushTime (heap s2 b) + 1000, b, i) \<in> set (timers s2))) \<and>
                 ((\<forall>e \<in> set es. \<forall>k t. e = SwimTimeout k t \<longrightarrow> t < now + 1000)
                    \<longrightarrow> isSwimming (heap s2 b)) \<and>
                 (map_of (players s2) oid = Some b \<and> isSwimming (heap s2 b) \<longrightarrow>
                    (\<forall>pid t. step (MoveToLilyPad oid pid t) s2 = Inr s2)) \<and>
                 (\<forall>k d i t. k < length (timers s2) \<and> timers s2 ! k = (d, b, i) \<and> d \<le> t \<longrightarrow>
                    (\<exists>s3. step (SwimTimeout k t) s2 = Inr s3 \<and> \<not> isSwimming (heap s3 b) \<and>
                          outbox s3 = outbox s2 @ [(Everyone, PlayerCanMove i)])) \<and>
                 (map_of (players s2) oid = Some b \<and> \<not> isSwimming (heap s2 b) \<longrightarrow>
                    (\<forall>pid pad2 t2. find (\<lambda>q. pad_id q = pid) (lilyPads s) = Some pad2 \<longrightarrow>
                       (\<exists>s3. step (MoveToLilyPad oid pid t2) s2 = Inr s3 \<and>
                             p_x (heap s3 b) = pad_x pad2 \<and> p_y (heap s3 b) = pad_y pad2))) \<and>
                 (\<forall>c pid t2 s3. t2 - now \<le> 2000 \<and> step (MoveToLilyPad c pid t2) s2 = Inr s3 \<longrightarrow>
                    isSwimming (heap s3 b) = isSwimming (heap s2 b) \<and>
                    lastPushTime (heap s3 b) = lastPushTime (heap s2 b)))"
    if c: "2000 < now - lastPushTime (heap s b) \<and> \<not> isSwimming (heap s b)"
  proof -
    have pu: "pushable sid (p_size (heap s a)) pad now oid (heap s b)"
      using c assms(6-9) by (simp add: pushable_def)
    have cellb: "heap s' b = (heap s b)\<lparr>isSwimming := True, lastPushTime := now\<rparr>"
      using cell pu hb by simp
    have sw: "isSwimming (heap s' b)" and lpt: "lastPushTime (heap s' b) = now"
      using cellb by simp_all
    have "(now + 1000, b, oid) \<in> set (timers s')" using cell pu tm by simp
    then have k: "\<exists>k < length (timers s'). timers s' ! k = (now + 1000, b, oid)"
      by (auto simp: in_set_conv_nth)
    have alloc: "b < nextAddr s'" using swimming_allocated [OF r' sw] .
    have tr: "now \<le> lastPushTime (heap s2 b) \<and>
                 (isSwimming (heap s2 b) \<longleftrightarrow>
                    (\<exists>i. (lastPushTime (heap s2 b) + 1000, b, i) \<in> set (timers s2))) \<and>
                 ((\<forall>e \<in> set es. \<forall>k t. e = SwimTimeout k t \<longrightarrow> t < now + 1000)
                    \<longrightarrow> isSwimming (heap s2 b)) \<and>
                 (map_of (players s2) oid = Some b \<and> isSwimming (heap s2 b) \<longrightarrow>
                    (\<forall>pid t. step (MoveToLilyPad oid pid t) s2 = Inr s2)) \<and>
                 (\<forall>k d i t. k < length (timers s2) \<and> timers s2 ! k = (d, b, i) \<and> d \<le> t \<longrightarrow>
                    (\<exists>s3. step (SwimTimeout k t) s2 = Inr s3 \<and> \<not> isSwimming (heap s3 b) \<and>
                          outbox s3 = outbox s2 @ [(Everyone, PlayerCanMove i)])) \<and>
                 (map_of (players s2) oid = Some b \<and> \<not> isSwimming (heap s2 b) \<longrightarrow>
                    (\<forall>pid pad2 t2. find (\<lambda>q. pad_id q = pid) (lilyPads s) = Some pad2 \<longrightarrow>
                       (\<exists>s3. step (MoveToLilyPad oid pid t2) s2 = Inr s3 \<and>
                             p_x (heap s3 b) = pad_x pad2 \<and> p_y (heap s3 b) = pad_y pad2))) \<and>
                 (\<forall>c pid t2 s3. t2 - now \<le> 2000 \<and> step (MoveToLilyPad c pid t2) s2 = Inr s3 \<longrightarrow>
                    isSwimming (heap s3 b) = isSwimming (heap s2 b) \<and>
                    lastPushTime (heap s3 b) = lastPushTime (heap s2 b))"
      if run: "run es s' = Inr s2" for es s2
    proof -
      have r2: "reachable s2" using r' run by (rule reachable_run)
      have lp2: "now \<le> lastPushTime (heap s2 b)"
        using run_lastPush_mono [OF run alloc] lpt by simp
      have iff: "isSwimming (heap s2 b) \<longleftrightarrow>
                    (\<exists>i. (lastPushTime (heap s2 b) + 1000, b, i) \<in> set (timers s2))"
        using r2 by (rule swimming_iff_timer_pending)
      have stay: "(\<forall>e \<in> set es. \<forall>k t. e = SwimTimeout k t \<longrightarrow> t < now + 1000)
                    \<longrightarrow> isSwimming (heap s2 b)"
        using run_stays_swimming [OF r' sw _ run, of now] lpt by simp
      have nomove: "map_of (players s2) oid = Some b \<and> isSwimming (heap s2 b) \<longrightarrow>
                    (\<forall>pid t. step (MoveToLilyPad oid pid t) s2 = Inr s2)"
        using moveToLilyPad_swimming [of s2 oid b] by simp
      have fire: "\<exists>s3. step (SwimTimeout k t) s2 = Inr s3 \<and> \<not> isSwimming (heap s3 b) \<and>
                          outbox s3 = outbox s2 @ [(Everyone, PlayerCanMove i)]"
        if h: "k < length (timers s2) \<and> timers s2 ! k = (d, b, i) \<and> d \<le> t" for k d i t
      proof -
        have "(d, b, i) \<in> set (timers s2)" using h by (auto simp: in_set_conv_nth)
        then have sw2: "isSwimming (heap s2 b)"
          using reachable_timersOK [OF r2] by (fastforce simp: timersOK_def)
        have k: "k < length (timers s2)" and e: "timers s2 ! k = (d, b, i)" and dt: "d \<le> t"
          using h by simp_all
        show ?thesis using swimTimeout_fires [OF k e dt sw2] by simp
      qed
      have pads: "lilyPads s2 = lilyPads s" using run_lilyPads [OF run] lp by simp
      have again: "\<exists>s3. step (MoveToLilyPad oid pid t2) s2 = Inr s3 \<and>
                             p_x (heap s3 b) = pad_x pad2 \<and> p_y (heap s3 b) = pad_y pad2"
        if m2: "map_of (players s2) oid = Some b" and ns: "\<not> isSwimming (heap s2 b)"
          and fp: "find (\<lambda>q. pad_id q = pid) (lilyPads s) = Some pad2" for pid pad2 t2
      proof -
        have "find (\<lambda>q. pad_id q = pid) (lilyPads s2) = Some pad2" using fp pads by simp
        from moveToLilyPad_success [OF m2 ns this, of t2] show ?thesis by simp
      qed
      have sup2: "isSwimming (heap s3 b) = isSwimming (heap s2 b) \<and>
                    lastPushTime (heap s3 b) = lastPushTime (heap s2 b)"
        if h: "t2 - now \<le> 2000 \<and> step (MoveToLilyPad c pid t2) s2 = Inr s3" for c pid t2 s3
      proof -
        have "t2 - lastPushTime (heap s2 b) \<le> 2000" using h lp2 by simp
        moreover have "moveToLilyPad c pid t2 s2 = Inr s3" using h by simp
        ultimately show ?thesis using moveToLilyPad_swim_kept [of c pid t2 s2 s3 b] by simp
      qed
      have fireQ: "\<forall>k d i t. k < length (timers s2) \<and> timers s2 ! k = (d, b, i) \<and> d \<le> t \<longrightarrow>
                    (\<exists>s3. step (SwimTimeout k t) s2 = Inr s3 \<and> \<not> isSwimming (heap s3 b) \<and>
                          outbox s3 = outbox s2 @ [(Everyone, PlayerCanMove i)])"
      proof (intro allI impI)
        fix k d i t
        assume "k < length (timers s2) \<and> timers s2 ! k = (d, b, i) \<and> d \<le> t"
        then show "\<exists>s3. step (SwimTimeout k t) s2 = Inr s3 \<and> \<not> isSwimming (heap s3 b) \<and>
                          outbox s3 = outbox s2 @ [(Everyone, PlayerCanMove i)]"
          by (rule fire)
      qed
      have againQ: "map_of (players s2) oid = Some b \<and> \<not> isSwimming (heap s2 b) \<longrightarrow>
                    (\<forall>pid pad2 t2. find (\<lambda>q. pad_id q = pid) (lilyPads s) = Some pad2 \<longrightarrow>
                       (\<exists>s3. step (MoveToLilyPad oid pid t2) s2 = Inr s3 \<and>
                             p_x (heap s3 b) = pad_x pad2 \<and> p_y (heap s3 b) = pad_y pad2))"
      proof (intro allI impI)
        fix pid pad2 t2
        assume h: "map_of (players s2) oid = Some b \<and> \<not> isSwimming (heap s2 b)"
          and fp: "find (\<lambda>q. pad_id q = pid) (lilyPads s) = Some pad2"
        show "\<exists>s3. step (MoveToLilyPad oid pid t2) s2 = Inr s3 \<and>
                             p_x (heap s3 b) = pad_x pad2 \<and> p_y (heap s3 b) = pad_y pad2"
          using again [OF conjunct1 [OF h] conjunct2 [OF h] fp] .
      qed
      have supQ: "\<forall>c pid t2 s3. t2 - now \<le> 2000 \<and> step (MoveToLilyPad c pid t2) s2 = Inr s3 \<longrightarrow>
                    isSwimming (heap s3 b) = isSwimming (heap s2 b) \<and>
                    lastPushTime (heap s3 b) = lastPushTime (heap s2 b)"
      proof (intro allI impI)
        fix c pid t2 s3
        assume "t2 - now \<le> 2000 \<and> step (MoveToLilyPad c pid t2) s2 = Inr s3"
        then show "isSwimming (heap s3 b) = isSwimming (heap s2 b) \<and>
                    lastPushTime (heap s3 b) = lastPushTime (heap s2 b)"
          by (rule sup2)
      qed
      show ?thesis
        apply (intro conjI)
              apply (fact lp2)
             apply (fact iff)
            apply (fact stay)
           apply (fact nomove)
          apply (fact fireQ)
         apply (fact againQ)
        apply (fact supQ)
        done
    qed
    have trQ: "\<forall>es s2. run es s' = Inr s2 \<longrightarrow>
                 now \<le> lastPushTime (heap s2 b) \<and>
                 (isSwimming (heap s2 b) \<longleftrightarrow>
                    (\<exists>i. (lastPushTime (heap s2 b) + 1000, b, i) \<in> set (timers s2))) \<and>
                 ((\<forall>e \<in> set es. \<forall>k t. e = SwimTimeout k t \<longrightarrow> t < now + 1000)
                    \<longrightarrow> isSwimming (heap s2 b)) \<and>
                 (map_of (players s2) oid = Some b \<and> isSwimming (heap s2 b) \<longrightarrow>
                    (\<forall>pid t. step (MoveToLilyPad oid pid t) s2 = Inr s2)) \<and>
                 (\<forall>k d i t. k < length (timers s2) \<and> timers s2 ! k = (d, b, i) \<and> d \<le> t \<longrightarrow>
                    (\<exists>s3. step (SwimTimeout k t) s2 = Inr s3 \<and> \<not> isSwimming (heap s3 b) \<and>
                          outbox s3 = outbox s2 @ [(Everyone, PlayerCanMove i)])) \<and>
                 (map_of (players s2) oid = Some b \<and> \<not> isSwimming (heap s2 b) \<longrightarrow>
                    (\<forall>pid pad2 t2. find (\<lambda>q. pad_id q = pid) (lilyPads s) = Some pad2 \<longrightarrow>
                       (\<exists>s3. step (MoveToLilyPad oid pid t2) s2 = Inr s3 \<and>
                             p_x (heap s3 b) = pad_x pad2 \<and> p_y (heap s3 b) = pad_y pad2))) \<and>
                 (\<forall>c pid t2 s3. t2 - now \<le> 2000 \<and> step (MoveToLilyPad c pid t2) s2 = Inr s3 \<longrightarrow>
                    isSwimming (heap s3 b) = isSwimming (heap s2 b) \<and>
                    lastPushTime (heap s3 b) = lastPushTime (heap s2 b))"
    proof (intro allI impI)
      fix es s2 assume "run es s' = Inr s2"
      then show "now \<le> lastPushTime (heap s2 b) \<and>
                 (isSwimming (heap s2 b) \<longleftrightarrow>
                    (\<exists>i. (lastPushTime (heap s2 b) + 1000, b, i) \<in> set (timers s2))) \<and>
                 ((\<forall>e \<in> set es. \<forall>k t. e = SwimTimeout k t \<longrightarrow> t < now + 1000)
                    \<longrightarrow> isSwimming (heap s2 b)) \<and>
                 (map_of (players s2) oid = Some b \<and> isSwimming (heap s2 b) \<longrightarrow>
                    (\<forall>pid t. step (MoveToLilyPad oid pid t) s2 = Inr s2)) \<and>
                 (\<forall>k d i t. k < length (timers s2) \<and> timers s2 ! k = (d, b, i) \<and> d \<le> t \<longrightarrow>
                    (\<exists>s3. step (SwimTimeout k t) s2 = Inr s3 \<and> \<not> isSwimming (heap s3 b) \<and>
                          outbox s3 = outbox s2 @ [(Everyone, PlayerCanMove i)])) \<and>
                 (map_of (players s2) oid = Some b \<and> \<not> isSwimming (heap s2 b) \<longrightarrow>
                    (\<forall>pid pad2 t2. find (\<lambda>q. pad_id q = pid) (lilyPads s) = Some pad2 \<longrightarrow>
                       (\<exists>s3. step (MoveToLilyPad oid pid t2) s2 = Inr s3 \<and>
                             p_x (heap s3 b) = pad_x pad2 \<and> p_y (heap s3 b) = pad_y pad2))) \<and>
                 (\<forall>c pid t2 s3. t2 - now \<le> 2000 \<and> step (MoveToLilyPad c pid t2) s2 = Inr s3 \<longrightarrow>
                    isSwimming (heap s3 b) = isSwimming (heap s2 b) \<and>
                    lastPushTime (heap s3 b) = lastPushTime (heap s2 b))"
        by (rule tr)
    qed
    show ?thesis
      apply (intro conjI)
         apply (fact sw)
        apply (fact lpt)
       apply (fact k)
      apply (fact trQ)
      done
  qed
  show ?thesis
  proof (intro exI [of _ s'] conjI)
    show "step (MoveToLilyPad sid padId now) s = Inr s'" by (fact st)
    show "map_of (players s') oid = Some b" by (fact mo)
    show "now - lastPushTime (heap s b) \<le> 2000 \<or> isSwimming (heap s b)
              \<longrightarrow> heap s' b = heap s b" by (fact supp)
    show "2000 < now - lastPushTime (heap s b) \<and> \<not> isSwimming (heap s b) \<longrightarrow>
              isSwimming (heap s' b) \<and> lastPushTime (heap s' b) = now \<and>
              (\<exists>k < length (timers s'). timers s' ! k = (now + 1000, b, oid)) \<and>
              (\<forall>es s2. run es s' = Inr s2 \<longrightarrow>
                 now \<le> lastPushTime (heap s2 b) \<and>
                 (isSwimming (heap s2 b) \<longleftrightarrow>
                    (\<exists>i. (lastPushTime (heap s2 b) + 1000, b, i) \<in> set (timers s2))) \<and>
                 ((\<forall>e \<in> set es. \<forall>k t. e = SwimTimeout k t \<longrightarrow> t < now + 1000)
                    \<longrightarrow> isSwimming (heap s2 b)) \<and>
                 (map_of (players s2) oid = Some b \<and> isSwimming (heap s2 b) \<longrightarrow>
                    (\<forall>pid t. step (MoveToLilyPad oid pid t) s2 = Inr s2)) \<and>
                 (\<forall>k d i t. k < length (timers s2) \<and> timers s2 ! k = (d, b, i) \<and> d \<le> t \<longrightarrow>
                    (\<exists>s3. step (SwimTimeout k t) s2 = Inr s3 \<and> \<not> isSwimming (heap s3 b) \<and>
                          outbox s3 = outbox s2 @ [(Everyone, PlayerCanMove i)])) \<and>
                 (map_of (players s2) oid = Some b \<and> \<not> isSwimming (heap s2 b) \<longrightarrow>
                    (\<forall>pid pad2 t2. find (\<lambda>q. pad_id q = pid) (lilyPads s) = Some pad2 \<longrightarrow>
                       (\<exists>s3. step (MoveToLilyPad oid pid t2) s2 = Inr s3 \<and>
                             p_x (heap s3 b) = pad_x pad2 \<and> p_y (heap s3 b) = pad_y pad2))) \<and>
                 (\<forall>c pid t2 s3. t2 - now \<le> 2000 \<and> step (MoveToLilyPad c pid t2) s2 = Inr s3 \<longrightarrow>
                    isSwimming (heap s3 b) = isSwimming (heap s2 b) \<and>
                    lastPushTime (heap s3 b) = lastPushTime (heap s2 b)))"
    proof
      assume "2000 < now - lastPushTime (heap s b) \<and> \<not> isSwimming (heap s b)"
      then show "isSwimming (heap s' b) \<and> lastPushTime (heap s' b) = now \<and>
              (\<exists>k < length (timers s'). timers s' ! k = (now + 1000, b, oid)) \<and>
              (\<forall>es s2. run es s' = Inr s2 \<longrightarrow>
                 now \<le> lastPushTime (heap s2 b) \<and>
                 (isSwimming (heap s2 b) \<longleftrightarrow>
                    (\<exists>i. (lastPushTime (heap s2 b) + 1000, b, i) \<in> set (timers s2))) \<and>
                 ((\<forall>e \<in> set es. \<forall>k t. e = SwimTimeout k t \<longrightarrow> t < now + 1000)
                    \<longrightarrow> isSwimming (heap s2 b)) \<and>
                 (map_of (players s2) oid = Some b \<and> isSwimming (heap s2 b) \<longrightarrow>
                    (\<forall>pid t. step (MoveToLilyPad oid pid t) s2 = Inr s2)) \<and>
                 (\<forall>k d i t. k < length (timers s2) \<and> timers s2 ! k = (d, b, i) \<and> d \<le> t \<longrightarrow>
                    (\<exists>s3. step (SwimTimeout k t) s2 = Inr s3 \<and> \<not> isSwimming (heap s3 b) \<and>
                          outbox s3 = outbox s2 @ [(Everyone, PlayerCanMove i)])) \<and>
                 (map_of (players s2) oid = Some b \<and> \<not> isSwimming (heap s2 b) \<longrightarrow>
                    (\<forall>pid pad2 t2. find (\<lambda>q. pad_id q = pid) (lilyPads s) = Some pad2 \<longrightarrow>
                       (\<exists>s3. step (MoveToLilyPad oid pid t2) s2 = Inr s3 \<and>
                             p_x (heap s3 b) = pad_x pad2 \<and> p_y (heap s3 b) = pad_y pad2))) \<and>
                 (\<forall>c pid t2 s3. t2 - now \<le> 2000 \<and> step (MoveToLilyPad c pid t2) s2 = Inr s3 \<longrightarrow>
                    isSwimming (heap s3 b) = isSwimming (heap s2 b) \<and>
                    lastPushTime (heap s3 b) = lastPushTime (heap s2 b)))"
        by (rule push)
    qed
  qed
qed

theorem push_smaller_occupant_witness:
  "reachable bigA \<and> map_of (players bigA) ''s1'' = Some 0 \<and> \<not> isSwimming (heap bigA 0) \<and>
   find (\<lambda>pad. pad_id pad = ''pad-0-1'') (lilyPads bigA) = Some (demoPads ! 0) \<and>
   map_of (players bigA) ''s2'' = Some 1 \<and> ''s2'' \<noteq> ''s1'' \<and>
   p_x (heap bigA 1) = pad_x (demoPads ! 0) \<and> p_y (heap bigA 1) = pad_y (demoPads ! 0) \<and>
   p_size (heap bigA 1) < p_size (heap bigA 0) \<and>
   2000 < 1700000000000 - lastPushTime (heap bigA 1) \<and> \<not> isSwimming (heap bigA 1) \<and>
   step (MoveToLilyPad ''s1'' ''pad-0-1'' 1700000000000) bigA = Inr pushedB \<and>
   isSwimming (heap pushedB 1) \<and> lastPushTime (heap pushedB 1) = 1700000000000 \<and>
   0 < length (timers pushedB) \<and> timers pushedB ! 0 = (1700000001000, 1, ''s2'') \<and>
   run [SwimTimeout 0 1700000000999] pushedB = Inr pushedB \<and>
   (1700000000999::int) < 1700000000000 + 1000 \<and>
   map_of (players pushedB) ''s2'' = Some 1 \<and>
   step (MoveToLilyPad ''s2'' ''pad-center'' 1700000000500) pushedB = Inr pushedB \<and>
   (1700000001000::int) \<le> 1700000001000 \<and>
   (\<exists>s3. step (SwimTimeout 0 1700000001000) pushedB = Inr s3 \<and> \<not> isSwimming (heap s3 1) \<and>
         outbox s3 = outbox pushedB @ [(Everyone, PlayerCanMove ''s2'')]) \<and>
   run [SwimTimeout 0 1700000001000] pushedB = Inr recoveredB \<and>
   map_of (players recoveredB) ''s2'' = Some 1 \<and> \<not> isSwimming (heap recoveredB 1) \<and>
   find (\<lambda>q. pad_id q = ''pad-center'') (lilyPads bigA) = Some centerPad \<and>
   (\<exists>s3. step (MoveToLilyPad ''s2'' ''pad-center'' 1700000001001) recoveredB = Inr s3 \<and>
         p_x (heap s3 1) = pad_x centerPad \<and> p_y (heap s3 1) = pad_y centerPad) \<and>
   (1700000001500::int) - 1700000000000 \<le> 2000 \<and>
   (\<exists>s5. step (MoveToLilyPad ''s1'' ''pad-0-1'' 1700000001500) recoveredB = Inr s5 \<and>
         isSwimming (heap s5 1) = isSwimming (heap recoveredB 1) \<and>
         lastPushTime (heap s5 1) = lastPushTime (heap recoveredB 1)) \<and>
   reachable pushedB \<and> map_of (players pushedB) ''s1'' = Some 0 \<and>
   \<not> isSwimming (heap pushedB 0) \<and> p_size (heap pushedB 1) < p_size (heap pushedB 0) \<and>
   (\<exists>s4. step (MoveToLilyPad ''s1'' ''pad-0-1'' 1700000000500) pushedB = Inr s4 \<and>
         heap s4 1 = heap pushedB 1)"
proof -
  have f: "map_of (players bigA) ''s1'' = Some 0" "\<not> isSwimming (heap bigA 0)"
    "find (\<lambda>pad. pad_id pad = ''pad-0-1'') (lilyPads bigA) = Some (demoPads ! 0)"
    "map_of (players bigA) ''s2'' = Some 1"
    "p_x (heap bigA 1) = pad_x (demoPads ! 0)" "p_y (heap bigA 1) = pad_y (demoPads ! 0)"
    "p_size (heap bigA 1) < p_size (heap bigA 0)"
    by (simp_all add: bigA_sel pad_defs)
  have ne: "''s2'' \<noteq> ''s1''" by simp
  have old: "2000 < 1700000000000 - lastPushTime (heap bigA 1) \<and> \<not> isSwimming (heap bigA 1)"
    by (simp add: bigA_sel)
  have fc: "find (\<lambda>q. pad_id q = ''pad-center'') (lilyPads bigA) = Some centerPad"
    by (simp add: bigA_sel pad_defs)
  note body = ex_Inr_elim [OF push_smaller_occupant
      [OF bigA_reachable f(1) f(2) f(3) f(4) ne f(5) f(6) f(7), of 1700000000000] pushedB_step]
  note pushed = body [THEN conjunct2, THEN conjunct2, THEN mp, OF old]
  note sw = pushed [THEN conjunct1]
  note lpt = pushed [THEN conjunct2, THEN conjunct1]
  note tr = pushed [THEN conjunct2, THEN conjunct2, THEN conjunct2, rule_format]
  have g: "map_of (players pushedB) ''s1'' = Some 0" "\<not> isSwimming (heap pushedB 0)"
    "find (\<lambda>pad. pad_id pad = ''pad-0-1'') (lilyPads pushedB) = Some (demoPads ! 0)"
    "map_of (players pushedB) ''s2'' = Some 1"
    "p_x (heap pushedB 1) = pad_x (demoPads ! 0)" "p_y (heap pushedB 1) = pad_y (demoPads ! 0)"
    "p_size (heap pushedB 1) < p_size (heap pushedB 0)"
    "0 < length (timers pushedB)" "timers pushedB ! 0 = (1700000001000, 1, ''s2'')"
    by (simp_all add: pushedB_sel pad_defs)
  have run1: "run [SwimTimeout 0 1700000000999] pushedB = Inr pushedB"
    by (simp add: swimTimeout_def pushedB_sel)
  have early: "\<forall>e \<in> set [SwimTimeout 0 1700000000999].
                 \<forall>k t. e = SwimTimeout k t \<longrightarrow> t < 1700000000000 + 1000"
    by simp
  note t1 = tr [OF run1]
  have sw1: "isSwimming (heap pushedB 1)"
    using t1 [THEN conjunct2, THEN conjunct2, THEN conjunct1] early by (rule mp)
  have nomove: "step (MoveToLilyPad ''s2'' ''pad-center'' 1700000000500) pushedB = Inr pushedB"
    using t1 [THEN conjunct2, THEN conjunct2, THEN conjunct2, THEN conjunct1] g(4) sw1 by blast
  have fire: "\<exists>s3. step (SwimTimeout 0 1700000001000) pushedB = Inr s3 \<and>
         \<not> isSwimming (heap s3 1) \<and>
         outbox s3 = outbox pushedB @ [(Everyone, PlayerCanMove ''s2'')]"
    using t1 [THEN conjunct2, THEN conjunct2, THEN conjunct2, THEN conjunct2, THEN conjunct1,
              rule_format, of 0 1700000001000 "''s2''" 1700000001000] g(8) g(9)
    by simp
  have run2: "run [SwimTimeout 0 1700000001000] pushedB = Inr recoveredB"
    using recoveredB_step by simp
  note t2 = tr [OF run2]
  have r: "map_of (players recoveredB) ''s2'' = Some 1" "\<not> isSwimming (heap recoveredB 1)"
    by (simp_all add: recoveredB_sel)
  have r2: "map_of (players recoveredB) ''s2'' = Some 1 \<and> \<not> isSwimming (heap recoveredB 1)"
    using r by simp
  have again: "\<exists>s3. step (MoveToLilyPad ''s2'' ''pad-center'' 1700000001001) recoveredB = Inr s3 \<and>
         p_x (heap s3 1) = pad_x centerPad \<and> p_y (heap s3 1) = pad_y centerPad"
    using t2 [THEN conjunct2, THEN conjunct2, THEN conjunct2, THEN conjunct2, THEN conjunct2,
              THEN conjunct1, THEN mp, OF r2, rule_format, OF fc] .
  have within: "(1700000001500::int) - 1700000000000 \<le> 2000" by simp
  have m5: "step (MoveToLilyPad ''s1'' ''pad-0-1'' 1700000001500) recoveredB =
            Inr (projr (moveToLilyPad ''s1'' ''pad-0-1'' 1700000001500 recoveredB))"
    unfolding step.simps by (rule moveToLilyPad_Inr)
  have within5: "(1700000001500::int) - 1700000000000 \<le> 2000 \<and>
        step (MoveToLilyPad ''s1'' ''pad-0-1'' 1700000001500) recoveredB =
            Inr (projr (moveToLilyPad ''s1'' ''pad-0-1'' 1700000001500 recoveredB))"
    using within m5 by (rule conjI)
  have supp5: "\<exists>s5. step (MoveToLilyPad ''s1'' ''pad-0-1'' 1700000001500) recoveredB = Inr s5 \<and>
         isSwimming (heap s5 1) = isSwimming (heap recoveredB 1) \<and>
         lastPushTime (heap s5 1) = lastPushTime (heap recoveredB 1)"
    using m5 t2 [THEN conjunct2, THEN conjunct2, THEN conjunct2, THEN conjunct2, THEN conjunct2,
              THEN conjunct2, rule_format, OF within5]
    by (intro exI [of _ "projr (moveToLilyPad ''s1'' ''pad-0-1'' 1700000001500 recoveredB)"]) simp
  have m4: "step (MoveToLilyPad ''s1'' ''pad-0-1'' 1700000000500) pushedB =
            Inr (projr (moveToLilyPad ''s1'' ''pad-0-1'' 1700000000500 pushedB))"
    unfolding step.simps by (rule moveToLilyPad_Inr)
  note body4 = ex_Inr_elim [OF push_smaller_occupant
      [OF pushedB_reachable g(1) g(2) g(3) g(4) ne g(5) g(6) g(7), of 1700000000500] m4]
  have "1700000000500 - lastPushTime (heap pushedB 1) \<le> 2000 \<or> isSwimming (heap pushedB 1)"
    using sw by simp
  then have "heap (projr (moveToLilyPad ''s1'' ''pad-0-1'' 1700000000500 pushedB)) 1
             = heap pushedB 1"
    using body4 [THEN conjunct2, THEN conjunct1] by (rule rev_mp)
  then have supp4: "\<exists>s4. step (MoveToLilyPad ''s1'' ''pad-0-1'' 1700000000500) pushedB = Inr s4 \<and>
         heap s4 1 = heap pushedB 1"
    using m4 by (intro exI [of _ "projr (moveToLilyPad ''s1'' ''pad-0-1'' 1700000000500 pushedB)"]) simp
  show ?thesis
    using bigA_reachable f ne old pushedB_step sw lpt g(8) g(9) run1 g(4) nomove fire run2 r fc
      again within supp5 pushedB_reachable g(1) g(2) g(7) supp4
    by simp
qed

end
